theory Spec2Isabelle
  imports Complex_Main "HOL-Library.Sublist" "HOL-Library.Log_Nat"
begin

text \<open>
  A model of the SMS feature of the campaign application: the hook \<open>useSMS\<close> with
  \<open>sendSMS\<close>, \<open>sendBulkSMS\<close>, \<open>testSMS\<close> and \<open>logSMSCampaign\<close> (personalization,
  batching, bookkeeping of users and campaign recipients), and the edge function
  \<open>send-sms-demo1\<close> in the version that resolves the recipients itself. Asynchronous calls
  become functions of an explicit world: the database, the invocations made so far, the
  values shown as progress. What the code cannot decide (random draws, failing database
  requests, the answers of the edge function and of the provider) is a parameter. An
  exception is a value: the left summand of a result.
\<close>

section \<open>JavaScript strings and numbers\<close>

text \<open>
  A JavaScript string is modelled as a \<open>string\<close> (a list of \<open>char\<close>): the code units
  below 256. Of the characters that \<open>String.prototype.trim\<close> strips and the regular
  expression class \<open>\s\<close> matches, those below 256 are TAB, LF, VT, FF, CR, SPACE and NBSP.
\<close>

definition isWhiteSpace :: "char \<Rightarrow> bool" where
  "isWhiteSpace c = (c \<in> set [CHR 0x09, CHR 0x0A, CHR 0x0B, CHR 0x0C, CHR 0x0D, CHR 0x20, CHR 0xA0])"

definition trim :: "string \<Rightarrow> string" where
  "trim s = rev (dropWhile isWhiteSpace (rev (dropWhile isWhiteSpace s)))"

text \<open>\<open>s.includes(sub)\<close>: \<open>sub\<close> occurs in \<open>s\<close> as a contiguous substring.\<close>

fun str_includes :: "string \<Rightarrow> string \<Rightarrow> bool" where
  "str_includes [] sub = (sub = [])"
| "str_includes (c # cs) sub = (prefix sub (c # cs) \<or> str_includes cs sub)"

text \<open>\<open>xs.join(sep)\<close>.\<close>

fun str_join :: "string \<Rightarrow> string list \<Rightarrow> string" where
  "str_join sep [] = []"
| "str_join sep [x] = x"
| "str_join sep (x # y # ys) = x @ sep @ str_join sep (y # ys)"

text \<open>\<open>s.split(c)\<close> for a one-character separator: the segments between the separators.\<close>

fun str_split :: "char \<Rightarrow> string \<Rightarrow> string list" where
  "str_split sep [] = [[]]"
| "str_split sep (c # cs) =
     (if c = sep then [] # str_split sep cs
      else (case str_split sep cs of
              [] \<Rightarrow> [[c]]
            | seg # segs \<Rightarrow> (c # seg) # segs))"

text \<open>
  One attempt of the regular expression \<open>/\{\{\s*link\s*\}\}/\<close> at the start of a string:
  the rest of the string after the match. \<open>\s*\<close> is greedy, and giving back white space
  cannot help, since the next pattern character is not white space.
\<close>

definition match_link :: "string \<Rightarrow> string option" where
  "match_link s =
     (if take 2 s = ''{{'' then
        (let s1 = dropWhile isWhiteSpace (drop 2 s) in
         if take 4 s1 = ''link'' then
           (let s2 = dropWhile isWhiteSpace (drop 4 s1) in
            if take 2 s2 = ''}}'' then Some (drop 2 s2) else None)
         else None)
      else None)"

lemma match_link_shorter: "match_link s = Some r \<Longrightarrow> length r < length s"
proof -
  assume m: "match_link s = Some r"
  define s1 where "s1 = dropWhile isWhiteSpace (drop 2 s)"
  define s2 where "s2 = dropWhile isWhiteSpace (drop 4 s1)"
  from m have a: "take 2 s = ''{{''" and r: "r = drop 2 s2"
    by (auto simp: match_link_def s1_def s2_def Let_def split: if_splits)
  have "length s2 \<le> length (drop 4 s1)"
    unfolding s2_def by (rule length_dropWhile_le)
  moreover have "length s1 \<le> length (drop 2 s)"
    unfolding s1_def by (rule length_dropWhile_le)
  moreover from a have "2 \<le> length s"
    by (metis length_take min.cobounded1 length_Cons list.size(3) One_nat_def Suc_1)
  ultimately show ?thesis using r by simp
qed

text \<open>\<open>s.replace(/\{\{\s*link\s*\}\}/g, '[%1%]')\<close>: every match, left to right, not overlapping.\<close>

function replace_link :: "string \<Rightarrow> string" where
  "replace_link [] = []"
| "replace_link (c # cs) =
     (case match_link (c # cs) of
        Some rest \<Rightarrow> ''[%1%]'' @ replace_link rest
      | None \<Rightarrow> c # replace_link cs)"
  by pat_completeness auto
termination
  by (relation "measure length") (auto dest: match_link_shorter)

text \<open>A number in a template literal: the decimal digits of a natural number.\<close>

definition digit_char :: "nat \<Rightarrow> char" where
  "digit_char d = ''0123456789'' ! d"

fun show_nat :: "nat \<Rightarrow> string" where
  "show_nat n =
     (if n < 10 then [digit_char n] else show_nat (n div 10) @ [digit_char (n mod 10)])"

text \<open>
  A JavaScript number is an IEEE 754 double. A finite double is a rational number, and
  \<open>+\<close>, \<open>*\<close> and \<open>/\<close> give the double nearest to the exact result, a tie going to the
  even significand. \<open>round_half_even\<close> is that rounding to an integer, \<open>binade x\<close> the
  exponent \<open>e\<close> with \<open>2 ^ e \<le> x < 2 ^ (e + 1)\<close> of a positive \<open>x\<close>, and \<open>to_double x\<close> the
  double nearest to \<open>x\<close>: a multiple of \<open>2 ^ (e - 52)\<close>, so a significand of 53 bits, and of
  \<open>2 ^ -1074\<close> below the normal range. Results too large for a double (\<open>Infinity\<close>) and
  divisions by zero are not modelled; none occurs in what is proved below.
\<close>

definition round_half_even :: "rat \<Rightarrow> int" where
  "round_half_even x =
     (let f = \<lfloor>x\<rfloor>; d = x - of_int f
      in if d < 1 / 2 then f else if 1 / 2 < d then f + 1 else if even f then f else f + 1)"

definition binade :: "rat \<Rightarrow> int" where
  "binade x = (if 1 \<le> x then bitlen \<lfloor>x\<rfloor> - 1 else - bitlen (\<lceil>1 / x\<rceil> - 1))"

definition to_double :: "rat \<Rightarrow> rat" where
  "to_double x =
     (if x = 0 then 0
      else (let e = max (binade \<bar>x\<bar>) (- 1022); ulp = 2 powi (e - 52)
            in of_int (round_half_even (x / ulp)) * ulp))"

definition double_add :: "rat \<Rightarrow> rat \<Rightarrow> rat" where
  "double_add a b = to_double (a + b)"

definition double_mul :: "rat \<Rightarrow> rat \<Rightarrow> rat" where
  "double_mul a b = to_double (a * b)"

definition double_div :: "rat \<Rightarrow> rat \<Rightarrow> rat" where
  "double_div a b = to_double (a / b)"

text \<open>
  \<open>Math.round\<close> gives the integer nearest to its argument, a tie going upwards; it is
  exact.
\<close>

definition Math_round :: "rat \<Rightarrow> int" where
  "Math_round x = \<lfloor>x + 1 / 2\<rfloor>"

text \<open>
  What a \<open>catch\<close> clause receives: an \<open>Error\<close> instance with its message, or some other
  value. \<open>error instanceof Error ? error.message : dflt\<close> is \<open>thrown_message dflt error\<close>.
\<close>

datatype thrown = ErrorObject string | OtherValue

fun thrown_message :: "string \<Rightarrow> thrown \<Rightarrow> string" where
  "thrown_message dflt (ErrorObject m) = m"
| "thrown_message dflt OtherValue = dflt"

text \<open>\<open>x || dflt\<close> on an optional string: \<open>undefined\<close> and the empty string are falsy.\<close>

fun str_or :: "string option \<Rightarrow> string \<Rightarrow> string" where
  "str_or None dflt = dflt"
| "str_or (Some s) dflt = (if s = [] then dflt else s)"

text \<open>An optional string in a template literal.\<close>

fun show_opt :: "string option \<Rightarrow> string" where
  "show_opt None = ''undefined''"
| "show_opt (Some s) = s"


section \<open>The data the hook works on\<close>

text \<open>
  \<open>SMSRequest\<close>. \<open>recipients\<close> may be missing, and the source filters \<open>null\<close> and
  \<open>undefined\<close> entries out of it, so an entry is an optional string.
\<close>

record SMSRequest =
  recipients :: "string option list option"
  message :: string
  sender :: "string option"
  test :: "bool option"
  campaignId :: "string option"
  param1 :: "string option"

record invalid_number =
  inv_number :: string
  inv_submitted_number :: string
  inv_message :: string

text \<open>\<open>SMSResponse\<close> (\<open>details\<close> is left out: nothing reads it), with the hook's \<open>errors\<close>.\<close>

record SMSResponse =
  success :: bool
  sentCount :: "int option"
  totalRecipients :: "nat option"
  messageIds :: "string list option"
  cost :: "rat option"
  currency :: "string option"
  error :: "string option"
  errorCode :: "int option"
  invalidNumbers :: "invalid_number list option"
  errors :: "string list option"

text \<open>The \<open>results\<close> object of a personalized send, whose fields are all set.\<close>

record results =
  r_success :: bool
  r_sentCount :: int
  r_totalRecipients :: nat
  r_messageIds :: "string list"
  r_cost :: rat
  r_currency :: string
  r_invalidNumbers :: "invalid_number list"
  r_errors :: "string list"
  r_error :: "string option"

definition results_response :: "results \<Rightarrow> SMSResponse" where
  "results_response r =
     \<lparr>success = r_success r, sentCount = Some (r_sentCount r),
      totalRecipients = Some (r_totalRecipients r), messageIds = Some (r_messageIds r),
      cost = Some (r_cost r), currency = Some (r_currency r), error = r_error r,
      errorCode = None, invalidNumbers = Some (r_invalidNumbers r),
      errors = Some (r_errors r)\<rparr>"

definition failure_response :: "string \<Rightarrow> SMSResponse" where
  "failure_response msg =
     \<lparr>success = False, sentCount = None, totalRecipients = None, messageIds = None,
      cost = None, currency = None, error = Some msg, errorCode = None,
      invalidNumbers = None, errors = None\<rparr>"

text \<open>The body of \<open>supabase.functions.invoke('send-sms-demo1', { body })\<close> and what it gives.\<close>

record invoke_body =
  body_recipients :: "string list"
  body_message :: string
  body_sender :: string
  body_test :: bool
  body_param1 :: "string option"

record fn_error =
  fe_message :: "string option"
  fe_context_error :: "string option"

datatype invoke_result =
    InvokeThrows thrown
  | InvokeError fn_error
  | InvokeData SMSResponse

section \<open>The database\<close>

record user_row =
  u_id :: string
  u_phone_number :: string
  u_country :: string
  u_status :: string

record recipient_row =
  cr_campaign_id :: string
  cr_user_id :: string
  cr_status :: string
  cr_unique_token :: string

record bulk_message_row =
  bm_type :: string
  bm_content :: string
  bm_recipient_count :: nat
  bm_sent_count :: int
  bm_status :: string
  bm_completed_at :: string
  bm_campaign_id :: "string option"

record database =
  campaigns :: "(string \<times> string) list"
  users :: "user_row list"
  campaign_recipients :: "recipient_row list"
  bulk_messages :: "bulk_message_row list"

text \<open>
  What the code runs in. \<open>normalizePhoneNumber\<close> and \<open>detectCountryFromPhone\<close> come from
  \<open>utils/phoneValidation\<close>, which is not among the sources: they are parameters, total
  functions as the specification requires (section 4.1), and the dynamic import of the
  module is taken to succeed. \<open>random_digits n\<close> is the \<open>n\<close>-th draw of
  \<open>Math.random()\<close> as \<open>toString(36)\<close> prints it after \<open>0.\<close>, a list of base-36 digits.
  \<open>db_fault n\<close> says whether the \<open>n\<close>-th database request fails on its own (connection,
  permission) and with what error; such a request changes nothing. \<open>no_rows_error\<close> and
  \<open>unique_violation\<close> are the error objects of \<open>.single()\<close> without exactly one row and of
  a violated uniqueness constraint. \<open>new_user_id\<close> is the \<open>id\<close> the database gives a new
  user, \<open>now_iso\<close> the clock. \<open>functions_invoke n body\<close> is the outcome of the \<open>n\<close>-th
  invocation of the edge function: an exception, an error, or the data of its answer; every
  request to the database and to the edge function is taken to come back.
\<close>

record env =
  normalizePhoneNumber :: "string \<Rightarrow> string"
  detectCountryFromPhone :: "string \<Rightarrow> string option"
  location_origin :: string
  random_digits :: "nat \<Rightarrow> nat list"
  db_fault :: "nat \<Rightarrow> thrown option"
  no_rows_error :: thrown
  unique_violation :: thrown
  new_user_id :: "user_row list \<Rightarrow> string"
  now_iso :: string
  functions_invoke :: "nat \<Rightarrow> invoke_body \<Rightarrow> invoke_result"

text \<open>
  The state an invocation changes: the database, the number of database requests and of
  random draws so far, the bodies of the edge-function invocations in order, and the
  values passed to \<open>setProgress\<close> and \<open>setSending\<close> in order.
\<close>

record world =
  db :: database
  db_requests :: nat
  random_draws :: nat
  invocations :: "invoke_body list"
  progress_log :: "int list"
  sending_log :: "bool list"

definition setProgress :: "int \<Rightarrow> world \<Rightarrow> world" where
  "setProgress p w = w\<lparr>progress_log := progress_log w @ [p]\<rparr>"

definition setSending :: "bool \<Rightarrow> world \<Rightarrow> world" where
  "setSending b w = w\<lparr>sending_log := sending_log w @ [b]\<rparr>"

text \<open>Every database request is counted and may fail on its own.\<close>

definition db_request :: "env \<Rightarrow> world \<Rightarrow> thrown option \<times> world" where
  "db_request e w = (db_fault e (db_requests w), w\<lparr>db_requests := Suc (db_requests w)\<rparr>)"

text \<open>\<open>from('campaigns').select('short_id').eq('id', id).single()\<close>\<close>

definition select_campaign_short_id ::
  "env \<Rightarrow> string \<Rightarrow> world \<Rightarrow> (thrown + string) \<times> world" where
  "select_campaign_short_id e cid w =
     (case db_request e w of
        (Some err, w1) \<Rightarrow> (Inl err, w1)
      | (None, w1) \<Rightarrow>
          (case filter (\<lambda>c. fst c = cid) (campaigns (db w1)) of
             [c] \<Rightarrow> (Inr (snd c), w1)
           | _ \<Rightarrow> (Inl (no_rows_error e), w1)))"

text \<open>\<open>from('users').select('id').eq('phone_number', phone).single()\<close>\<close>

definition select_user_single ::
  "env \<Rightarrow> string \<Rightarrow> world \<Rightarrow> (thrown + user_row) \<times> world" where
  "select_user_single e phone w =
     (case db_request e w of
        (Some err, w1) \<Rightarrow> (Inl err, w1)
      | (None, w1) \<Rightarrow>
          (case filter (\<lambda>u. u_phone_number u = phone) (users (db w1)) of
             [u] \<Rightarrow> (Inr u, w1)
           | _ \<Rightarrow> (Inl (no_rows_error e), w1)))"

text \<open>
  Modelled from the spec: the schema of the table \<open>users\<close> is not among the sources;
  \<open>phone_number\<close> is unique (section 3, "phone_number (unique)"), so inserting a phone
  number that a row already has fails, and the database gives the new row its \<open>id\<close>.
  The call is
  \<open>from('users').insert([{ phone_number, country, status }]).select('id').single()\<close>.
\<close>

definition insert_user ::
  "env \<Rightarrow> string \<Rightarrow> string \<Rightarrow> string \<Rightarrow> world \<Rightarrow> (thrown + user_row) \<times> world" where
  "insert_user e phone country status w =
     (case db_request e w of
        (Some err, w1) \<Rightarrow> (Inl err, w1)
      | (None, w1) \<Rightarrow>
          if phone \<in> set (map u_phone_number (users (db w1)))
          then (Inl (unique_violation e), w1)
          else
            (let row = \<lparr>u_id = new_user_id e (users (db w1)), u_phone_number = phone,
                        u_country = country, u_status = status\<rparr>
             in (Inr row, w1\<lparr>db := (db w1)\<lparr>users := users (db w1) @ [row]\<rparr>\<rparr>)))"

text \<open>
  \<open>from('campaign_recipients').select('unique_token').eq('campaign_id', cid)
  .eq('user_id', uid).single()\<close>
\<close>

definition recipient_key :: "recipient_row \<Rightarrow> string \<times> string" where
  "recipient_key r = (cr_campaign_id r, cr_user_id r)"

definition select_recipient_single ::
  "env \<Rightarrow> string \<Rightarrow> string \<Rightarrow> world \<Rightarrow> (thrown + recipient_row) \<times> world" where
  "select_recipient_single e cid uid w =
     (case db_request e w of
        (Some err, w1) \<Rightarrow> (Inl err, w1)
      | (None, w1) \<Rightarrow>
          (case filter (\<lambda>r. recipient_key r = (cid, uid)) (campaign_recipients (db w1)) of
             [r] \<Rightarrow> (Inr r, w1)
           | _ \<Rightarrow> (Inl (no_rows_error e), w1)))"

text \<open>
  Modelled from the spec: the schema of the table \<open>campaign_recipients\<close> is not among the
  sources; \<open>(campaign_id, user_id)\<close> is unique (section 3, "Composite-unique on
  (campaign_id, user_id)"), so inserting a pair that a row already has fails. The call is
  \<open>from('campaign_recipients').insert([{ campaign_id, user_id, status, unique_token }])\<close>.
\<close>

definition insert_recipient :: "env \<Rightarrow> recipient_row \<Rightarrow> world \<Rightarrow> thrown option \<times> world" where
  "insert_recipient e row w =
     (case db_request e w of
        (Some err, w1) \<Rightarrow> (Some err, w1)
      | (None, w1) \<Rightarrow>
          if recipient_key row \<in> set (map recipient_key (campaign_recipients (db w1)))
          then (Some (unique_violation e), w1)
          else (None, w1\<lparr>db := (db w1)\<lparr>campaign_recipients :=
                                campaign_recipients (db w1) @ [row]\<rparr>\<rparr>))"

text \<open>
  \<open>from('campaign_recipients').update({ status }).eq('campaign_id', cid).eq('user_id', uid)\<close>;
  the source does not look at its result.
\<close>

definition update_recipient_status :: "env \<Rightarrow> string \<Rightarrow> string \<Rightarrow> string \<Rightarrow> world \<Rightarrow> world" where
  "update_recipient_status e cid uid status w =
     (case db_request e w of
        (Some err, w1) \<Rightarrow> w1
      | (None, w1) \<Rightarrow>
          w1\<lparr>db := (db w1)\<lparr>campaign_recipients :=
                  map (\<lambda>r. if recipient_key r = (cid, uid) then r\<lparr>cr_status := status\<rparr> else r)
                      (campaign_recipients (db w1))\<rparr>\<rparr>)"

text \<open>\<open>from('bulk_messages').insert(row)\<close>; a failed insert writes nothing.\<close>

definition insert_bulk_message :: "env \<Rightarrow> bulk_message_row \<Rightarrow> world \<Rightarrow> thrown option \<times> world" where
  "insert_bulk_message e row w =
     (case db_request e w of
        (Some err, w1) \<Rightarrow> (Some err, w1)
      | (None, w1) \<Rightarrow>
          (None, w1\<lparr>db := (db w1)\<lparr>bulk_messages := bulk_messages (db w1) @ [row]\<rparr>\<rparr>))"

text \<open>
  \<open>Math.random().toString(36).substring(2, 10).toUpperCase()\<close>: at most eight base-36
  digits, in upper case.
\<close>

definition base36_char :: "nat \<Rightarrow> char" where
  "base36_char d = ''0123456789ABCDEFGHIJKLMNOPQRSTUVWXYZ'' ! (d mod 36)"

definition random_token :: "env \<Rightarrow> world \<Rightarrow> string \<times> world" where
  "random_token e w =
     (map base36_char (take 8 (random_digits e (random_draws w))),
      w\<lparr>random_draws := Suc (random_draws w)\<rparr>)"


section \<open>The hook \<open>useSMS\<close>\<close>

subsection \<open>Resolving one recipient (the inner \<open>try\<close> block)\<close>

text \<open>\<open>request.campaignId\<close> as a condition: \<open>undefined\<close> and the empty string are falsy.\<close>

definition campaign_of :: "SMSRequest \<Rightarrow> string option" where
  "campaign_of req =
     (case campaignId req of None \<Rightarrow> None | Some c \<Rightarrow> if c = [] then None else Some c)"

text \<open>
  "Find or create user": a lookup that gives an error, for whatever reason, is followed by
  an insert, and a failed insert is thrown.
\<close>

definition find_or_create_user :: "env \<Rightarrow> string \<Rightarrow> world \<Rightarrow> (thrown + string) \<times> world" where
  "find_or_create_user e normalizedPhone w =
     (case select_user_single e normalizedPhone w of
        (Inl userError, w1) \<Rightarrow>
          (let country = str_or (detectCountryFromPhone e normalizedPhone) ''Unknown'' in
           case insert_user e normalizedPhone country ''active'' w1 of
             (Inl createUserError, w2) \<Rightarrow> (Inl createUserError, w2)
           | (Inr newUser, w2) \<Rightarrow> (Inr (u_id newUser), w2))
      | (Inr existingUser, w1) \<Rightarrow> (Inr (u_id existingUser), w1))"

text \<open>
  "Find or create campaign recipient": an existing row gives its token and is set to
  \<open>sent\<close>; otherwise a fresh token is drawn and a row inserted, and a failed insert is
  thrown.
\<close>

definition find_or_create_recipient ::
  "env \<Rightarrow> string \<Rightarrow> string \<Rightarrow> world \<Rightarrow> (thrown + string) \<times> world" where
  "find_or_create_recipient e cid userId w =
     (case select_recipient_single e cid userId w of
        (Inl recipientError, w1) \<Rightarrow>
          (case random_token e w1 of
             (uniqueToken, w2) \<Rightarrow>
               (case insert_recipient e
                       \<lparr>cr_campaign_id = cid, cr_user_id = userId, cr_status = ''sent'',
                        cr_unique_token = uniqueToken\<rparr> w2 of
                  (Some createRecipientError, w3) \<Rightarrow> (Inl createRecipientError, w3)
                | (None, w3) \<Rightarrow> (Inr uniqueToken, w3)))
      | (Inr existingRecipient, w1) \<Rightarrow>
          (Inr (cr_unique_token existingRecipient),
           update_recipient_status e cid userId ''sent'' w1))"

text \<open>
  The statements of the inner \<open>try\<close> block up to the two pushes: the token of the
  recipient, or what the block throws.
\<close>

definition resolve_token ::
  "env \<Rightarrow> SMSRequest \<Rightarrow> bool \<Rightarrow> string \<Rightarrow> world \<Rightarrow> (thrown + string) \<times> world" where
  "resolve_token e req hasLinkPlaceholder normalizedPhone w =
     (case campaign_of req of
        Some cid \<Rightarrow>
          (case select_campaign_short_id e cid w of
             (campaignData, w1) \<Rightarrow>
               (case find_or_create_user e normalizedPhone w1 of
                  (Inl err, w2) \<Rightarrow> (Inl err, w2)
                | (Inr userId, w2) \<Rightarrow> find_or_create_recipient e cid userId w2))
      | None \<Rightarrow>
          if hasLinkPlaceholder then
            (case random_token e w of (uniqueToken, w1) \<Rightarrow> (Inr uniqueToken, w1))
          else (Inr [], w))"

text \<open>\<open>hasLinkPlaceholder && uniqueToken ? `${window.location.origin}/${uniqueToken}` : ''\<close>\<close>

definition link_of :: "env \<Rightarrow> bool \<Rightarrow> string \<Rightarrow> string" where
  "link_of e hasLinkPlaceholder uniqueToken =
     (if hasLinkPlaceholder \<and> uniqueToken \<noteq> [] then location_origin e @ ''/'' @ uniqueToken
      else [])"

text \<open>
  One turn of \<open>for (const phone of batch)\<close>. The state is \<open>batchRecipients\<close>,
  \<open>batchLinks\<close>, \<open>results\<close> and the world.
\<close>

type_synonym batch_state = "string list \<times> string list \<times> results \<times> world"

definition process_recipient ::
  "env \<Rightarrow> SMSRequest \<Rightarrow> bool \<Rightarrow> string \<Rightarrow> batch_state \<Rightarrow> batch_state" where
  "process_recipient e req hasLinkPlaceholder phone s =
     (case s of (batchRecipients, batchLinks, res, w) \<Rightarrow>
        (let normalizedPhone = normalizePhoneNumber e phone in
         case resolve_token e req hasLinkPlaceholder normalizedPhone w of
           (Inr uniqueToken, w1) \<Rightarrow>
             (batchRecipients @ [normalizedPhone],
              batchLinks @ [link_of e hasLinkPlaceholder uniqueToken], res, w1)
         | (Inl err, w1) \<Rightarrow>
             (batchRecipients @ [normalizedPhone], batchLinks @ [[]],
              res\<lparr>r_errors := r_errors res @
                     [normalizedPhone @ '': '' @ thrown_message ''Unknown error'' err]\<rparr>,
              w1)))"

subsection \<open>Sending one batch\<close>

text \<open>\<open>`Batch ${batchIndex + 1}: ${msg}`\<close>\<close>

definition batch_error :: "nat \<Rightarrow> string \<Rightarrow> string" where
  "batch_error batchIndex msg = ''Batch '' @ show_nat (batchIndex + 1) @ '': '' @ msg"

text \<open>What the answer of the edge function does to \<open>results\<close>.\<close>

definition record_reply :: "nat \<Rightarrow> invoke_result \<Rightarrow> results \<Rightarrow> results" where
  "record_reply batchIndex reply res =
     (case reply of
        InvokeThrows err \<Rightarrow>
          res\<lparr>r_errors := r_errors res @
                 [batch_error batchIndex (thrown_message ''Unknown error'' err)]\<rparr>
      | InvokeError smsError \<Rightarrow>
          res\<lparr>r_errors := r_errors res @
                 [batch_error batchIndex (show_opt (fe_message smsError))]\<rparr>
      | InvokeData smsData \<Rightarrow>
          if success smsData then
            res\<lparr>r_sentCount := r_sentCount res + (case sentCount smsData of None \<Rightarrow> 0 | Some n \<Rightarrow> n),
                r_messageIds := r_messageIds res @ (case messageIds smsData of None \<Rightarrow> [] | Some ids \<Rightarrow> ids),
                r_cost := (case cost smsData of
                             None \<Rightarrow> r_cost res
                           | Some c \<Rightarrow> if c = 0 then r_cost res else double_add (r_cost res) c)\<rparr>
          else
            res\<lparr>r_errors := r_errors res @
                   [batch_error batchIndex (str_or (error smsData) ''Unknown error'')],
                r_invalidNumbers := r_invalidNumbers res @
                   (case invalidNumbers smsData of None \<Rightarrow> [] | Some ns \<Rightarrow> ns)\<rparr>)"

text \<open>
  \<open>Math.round(((batchIndex + 1) / batches.length) * 90)\<close>: the quotient is rounded to a
  double, and so is its product with 90. (The two integers are doubles as they are.)
\<close>

definition progressPercent :: "nat \<Rightarrow> nat \<Rightarrow> int" where
  "progressPercent batchIndex n_batches =
     Math_round (double_mul (double_div (rat_of_nat (batchIndex + 1)) (rat_of_nat n_batches)) 90)"

definition batch_body :: "env \<Rightarrow> SMSRequest \<Rightarrow> bool \<Rightarrow> string list \<Rightarrow> string list \<Rightarrow> invoke_body" where
  "batch_body e req hasLinkPlaceholder batchRecipients batchLinks =
     (let batchMessage = (if hasLinkPlaceholder then replace_link (message req) else message req)
      in \<lparr>body_recipients = batchRecipients,
          body_message = trim batchMessage,
          body_sender = str_or (sender req) ''BulkComm'',
          body_test = (test req = Some True),
          body_param1 = (if hasLinkPlaceholder then Some (str_join ''|'' batchLinks) else None)\<rparr>)"

text \<open>One turn of \<open>for (let batchIndex = 0; batchIndex < batches.length; batchIndex++)\<close>.\<close>

definition send_batch ::
  "env \<Rightarrow> SMSRequest \<Rightarrow> bool \<Rightarrow> string list list \<Rightarrow> nat \<Rightarrow> results \<times> world \<Rightarrow> results \<times> world" where
  "send_batch e req hasLinkPlaceholder batches batchIndex s =
     (case s of (res, w) \<Rightarrow>
        (case fold (process_recipient e req hasLinkPlaceholder) (batches ! batchIndex)
                ([], [], res, w) of
           (batchRecipients, batchLinks, res1, w1) \<Rightarrow>
             (let body = batch_body e req hasLinkPlaceholder batchRecipients batchLinks;
                  reply = functions_invoke e (length (invocations w1)) body;
                  w2 = w1\<lparr>invocations := invocations w1 @ [body]\<rparr>
              in (record_reply batchIndex reply res1,
                  setProgress (progressPercent batchIndex (length batches)) w2))))"

text \<open>
  \<open>for (let i = 0; i < validRecipients.length; i += batchSize)
  batches.push(validRecipients.slice(i, i + batchSize))\<close>, with \<open>batchSize = 100\<close>.
\<close>

function make_batches :: "nat \<Rightarrow> 'a list \<Rightarrow> 'a list list" where
  "make_batches i xs =
     (if i < length xs then take 100 (drop i xs) # make_batches (i + 100) xs else [])"
  by pat_completeness auto
termination
  by (relation "measure (\<lambda>(i, xs). length xs - i)") auto

subsection \<open>\<open>logSMSCampaign\<close> and \<open>sendBulkSMS\<close>\<close>

text \<open>\<open>logSMSCampaign\<close> swallows a failed insert.\<close>

definition logSMSCampaign ::
  "env \<Rightarrow> string \<Rightarrow> string \<Rightarrow> nat \<Rightarrow> int \<Rightarrow> string \<Rightarrow> string option \<Rightarrow> world \<Rightarrow> world" where
  "logSMSCampaign e type content recipientCount sent status campaign w =
     snd (insert_bulk_message e
            \<lparr>bm_type = type, bm_content = content, bm_recipient_count = recipientCount,
             bm_sent_count = sent, bm_status = status, bm_completed_at = now_iso e,
             bm_campaign_id = (case campaign of None \<Rightarrow> None
                               | Some c \<Rightarrow> if c = [] then None else Some c)\<rparr> w)"

text \<open>The message \<open>sendBulkSMS\<close> throws for an error of the invocation.\<close>

definition bulk_error_message :: "fn_error \<Rightarrow> string" where
  "bulk_error_message err =
     (if (case fe_message err of None \<Rightarrow> False | Some m \<Rightarrow> str_includes m ''Failed to fetch'')
      then ''Unable to connect to SMS service. Please check your internet connection and Supabase configuration.''
      else if (case fe_message err of None \<Rightarrow> False | Some m \<Rightarrow> str_includes m ''non-2xx status'')
      then ''SMS service returned an error. Please check that SMSAPI_TOKEN is configured in Supabase Edge Functions settings.''
      else if (case fe_context_error err of None \<Rightarrow> False | Some c \<Rightarrow> c \<noteq> [])
      then str_or (fe_context_error err) []
      else if (case fe_message err of None \<Rightarrow> False | Some m \<Rightarrow> m \<noteq> [])
      then str_or (fe_message err) []
      else ''SMS sending failed'')"

text \<open>
  \<open>sendBulkSMS\<close>: one invocation with the whole list. The interval timer that moves the
  progress bar while the call is pending is not modelled.
\<close>

definition sendBulkSMS ::
  "env \<Rightarrow> string list \<Rightarrow> string \<Rightarrow> string option \<Rightarrow> bool option \<Rightarrow> string option \<Rightarrow> world
   \<Rightarrow> (thrown + SMSResponse) \<times> world" where
  "sendBulkSMS e recips msg sndr tst p1 w =
     (let body = \<lparr>body_recipients = recips, body_message = trim msg,
                  body_sender = str_or sndr ''BulkComm'', body_test = (tst = Some True),
                  body_param1 = p1\<rparr>;
          reply = functions_invoke e (length (invocations w)) body;
          w1 = w\<lparr>invocations := invocations w @ [body]\<rparr>
      in case reply of
           InvokeThrows err \<Rightarrow> (Inl err, w1)
         | InvokeError err \<Rightarrow> (Inl (ErrorObject (bulk_error_message err)), setProgress 100 w1)
         | InvokeData d \<Rightarrow> (Inr d, setProgress 100 w1))"

subsection \<open>\<open>sendSMS\<close>\<close>

text \<open>
  \<open>request.recipients.filter(phone => phone && phone.trim() && phone !== 'null' &&
  phone !== 'undefined')\<close>
\<close>

definition valid_phone :: "string option \<Rightarrow> bool" where
  "valid_phone p =
     (case p of
        None \<Rightarrow> False
      | Some phone \<Rightarrow> phone \<noteq> [] \<and> trim phone \<noteq> [] \<and> phone \<noteq> ''null'' \<and> phone \<noteq> ''undefined'')"

definition validRecipients :: "SMSRequest \<Rightarrow> string list" where
  "validRecipients req =
     (case recipients req of
        None \<Rightarrow> []
      | Some ps \<Rightarrow> concat (map (\<lambda>p. case p of None \<Rightarrow> [] | Some phone \<Rightarrow> [phone])
                            (filter valid_phone ps)))"

definition hasLinkPlaceholder :: "SMSRequest \<Rightarrow> bool" where
  "hasLinkPlaceholder req = str_includes (message req) ''{{ link }}''"

definition initial_results :: "nat \<Rightarrow> results" where
  "initial_results n =
     \<lparr>r_success = True, r_sentCount = 0, r_totalRecipients = n, r_messageIds = [],
      r_cost = 0, r_currency = ''EUR'', r_invalidNumbers = [], r_errors = [],
      r_error = None\<rparr>"

text \<open>"Determine overall success".\<close>

definition determine_success :: "results \<Rightarrow> results" where
  "determine_success res =
     (if r_sentCount res = 0 then
        res\<lparr>r_success := False,
            r_error := Some (case r_errors res of
                               [] \<Rightarrow> ''No messages were sent successfully''
                             | e # _ \<Rightarrow> e)\<rparr>
      else res)"

text \<open>The personalized branch of \<open>sendSMS\<close>, from \<open>const results\<close> to \<open>return results\<close>.\<close>

definition personalized_send :: "env \<Rightarrow> SMSRequest \<Rightarrow> string list \<Rightarrow> world \<Rightarrow> results \<times> world" where
  "personalized_send e req valid w =
     (let batches = make_batches 0 valid in
      case fold (send_batch e req (hasLinkPlaceholder req) batches) [0..<length batches]
             (initial_results (length valid), w) of
        (res, w1) \<Rightarrow>
          (let w2 = setProgress 100 w1;
               res1 = determine_success res;
               w3 = (if r_success res1 \<and> r_sentCount res1 > 0
                     then logSMSCampaign e ''sms'' (message req) (length valid)
                            (r_sentCount res1) ''completed'' (campaignId req) w2
                     else w2)
           in (res1, w3)))"

text \<open>
  The \<open>try\<close> block of \<open>sendSMS\<close>: what it returns, or what it throws. (When
  \<open>recipients\<close> is missing or empty the first check throws; when it is there, every entry
  is an optional string.)
\<close>

definition sendSMS_try :: "env \<Rightarrow> SMSRequest \<Rightarrow> world \<Rightarrow> (thrown + SMSResponse) \<times> world" where
  "sendSMS_try e req w =
     (if (case recipients req of None \<Rightarrow> True | Some ps \<Rightarrow> ps = [])
      then (Inl (ErrorObject ''No recipients provided''), w)
      else if validRecipients req = []
      then (Inl (ErrorObject ''No valid recipients found''), w)
      else if campaign_of req = None \<and> \<not> hasLinkPlaceholder req
      then sendBulkSMS e (validRecipients req) (message req) (sender req) (test req) None w
      else (case personalized_send e req (validRecipients req) w of
              (res, w1) \<Rightarrow> (Inr (results_response res), w1)))"

text \<open>
  \<open>sendSMS\<close> with its \<open>catch\<close> and \<open>finally\<close>. The timer that resets the progress bar one
  second later is not modelled.
\<close>

definition sendSMS :: "env \<Rightarrow> SMSRequest \<Rightarrow> world \<Rightarrow> SMSResponse \<times> world" where
  "sendSMS e req w =
     (case sendSMS_try e req (setProgress 0 (setSending True w)) of
        (Inr response, w1) \<Rightarrow> (response, setSending False w1)
      | (Inl err, w1) \<Rightarrow>
          (failure_response (thrown_message ''Unknown error occurred'' err),
           setSending False w1))"

text \<open>\<open>testSMS\<close>: \<open>sendSMS({ ...request, test: true })\<close>\<close>

definition testSMS :: "env \<Rightarrow> SMSRequest \<Rightarrow> world \<Rightarrow> SMSResponse \<times> world" where
  "testSMS e req w = sendSMS e (req\<lparr>test := Some True\<rparr>) w"


section \<open>The edge function \<open>send-sms-demo1\<close> (the version that takes \<open>campaignId\<close>)\<close>

text \<open>
  The request: \<open>OPTIONS\<close>, a \<open>POST\<close> whose body \<open>req.json()\<close> cannot read, or a \<open>POST\<close>
  with a JSON body. \<open>er_recipients\<close> is \<open>None\<close> when the field is missing or not an array.
\<close>

record edge_request =
  er_recipients :: "string list option"
  er_message :: "string option"
  er_sender :: "string option"
  er_test :: "bool option"
  er_campaignId :: "string option"

datatype http_request = OPTIONS | POST_unreadable thrown | POST edge_request

text \<open>The response: the status and the JSON body (\<open>None\<close> for the text \<open>ok\<close>).\<close>

record http_response =
  status :: nat
  json :: "SMSResponse option"

text \<open>The request to the provider and its answer (\<open>SMSAPIResponse\<close>).\<close>

record provider_request =
  pr_authorization :: string
  pr_to :: string
  pr_message :: string
  pr_from :: string
  pr_param1 :: "string option"
  pr_test :: bool

record sms_item =
  item_id :: string
  item_points :: rat
  item_number :: string

record SMSAPIResponse =
  api_count :: "int option"
  api_list :: "sms_item list option"
  api_invalid_numbers :: "invalid_number list option"
  api_error :: "int option"
  api_message :: "string option"

datatype provider_reply = FetchThrows thrown | Unparseable string | Parsed SMSAPIResponse

text \<open>
  What the function runs in: the environment variables, the random draws, the database
  requests that fail on their own, the ids the database gives new users, the clock, and the
  provider.
\<close>

record edge_env =
  SUPABASE_URL :: "string option"
  SUPABASE_SERVICE_ROLE_KEY :: "string option"
  PUBLIC_BASE_URL :: "string option"
  SMSAPI_TOKEN :: "string option"
  edge_random_digits :: "nat \<Rightarrow> nat list"
  edge_db_fault :: "nat \<Rightarrow> thrown option"
  edge_unique_violation :: thrown
  edge_no_rows_error :: thrown
  edge_new_user_id :: "user_row list \<Rightarrow> string"
  edge_now_iso :: string
  fetch_reply :: "provider_request \<Rightarrow> provider_reply"

record edge_world =
  e_db :: database
  e_db_requests :: nat
  e_random_draws :: nat
  e_fetches :: "provider_request list"

definition edge_db_request :: "edge_env \<Rightarrow> edge_world \<Rightarrow> thrown option \<times> edge_world" where
  "edge_db_request ee w =
     (edge_db_fault ee (e_db_requests w), w\<lparr>e_db_requests := Suc (e_db_requests w)\<rparr>)"

definition truthy :: "string option \<Rightarrow> bool" where
  "truthy x = (case x of None \<Rightarrow> False | Some s \<Rightarrow> s \<noteq> [])"

text \<open>\<open>new Map(pairs).get(k)\<close>: of two pairs with one key the later one counts.\<close>

definition Map_get :: "('k \<times> 'v) list \<Rightarrow> 'k \<Rightarrow> 'v option" where
  "Map_get pairs k = map_of (rev pairs) k"

text \<open>The helper \<open>detectCountryFromPhone\<close> of the edge function: the first prefix in the table's order.\<close>

definition prefixes :: "(string \<times> string) list" where
  "prefixes =
     [(''+359'', ''BG''), (''+380'', ''UA''), (''+48'', ''PL''), (''+40'', ''RO''), (''+36'', ''HU''),
      (''+420'', ''CZ''), (''+421'', ''SK''), (''+385'', ''HR''), (''+386'', ''SI''), (''+381'', ''RS''),
      (''+49'', ''DE''), (''+33'', ''FR''), (''+39'', ''IT''), (''+34'', ''ES''), (''+31'', ''NL''),
      (''+32'', ''BE''), (''+43'', ''AT''), (''+41'', ''CH''), (''+44'', ''GB''), (''+1'', ''US'')]"

definition edge_detectCountryFromPhone :: "string \<Rightarrow> string" where
  "edge_detectCountryFromPhone phone =
     (case filter (\<lambda>pc. prefix (fst pc) phone) prefixes of
        [] \<Rightarrow> ''Unknown''
      | pc # _ \<Rightarrow> snd pc)"

text \<open>\<open>from('campaigns').select('short_id').eq('id', campaignId).single()\<close>\<close>

definition edge_select_campaign ::
  "edge_env \<Rightarrow> string \<Rightarrow> edge_world \<Rightarrow> (thrown + string) \<times> edge_world" where
  "edge_select_campaign ee cid w =
     (case edge_db_request ee w of
        (Some err, w1) \<Rightarrow> (Inl err, w1)
      | (None, w1) \<Rightarrow>
          (case filter (\<lambda>c. fst c = cid) (campaigns (e_db w1)) of
             [c] \<Rightarrow> (Inr (snd c), w1)
           | _ \<Rightarrow> (Inl (edge_no_rows_error ee), w1)))"

text \<open>Step 1: \<open>from('users').select('id, phone_number').in('phone_number', recipients)\<close>\<close>

definition select_users_in ::
  "edge_env \<Rightarrow> string list \<Rightarrow> edge_world \<Rightarrow> (thrown + user_row list) \<times> edge_world" where
  "select_users_in ee phones w =
     (case edge_db_request ee w of
        (Some err, w1) \<Rightarrow> (Inl err, w1)
      | (None, w1) \<Rightarrow>
          (Inr (filter (\<lambda>u. u_phone_number u \<in> set phones) (users (e_db w1))), w1))"

text \<open>
  Modelled from the spec: the schema of the table \<open>users\<close> is not among the sources;
  \<open>phone_number\<close> is unique (section 3), so an insert with a phone number twice, or with
  one that a row already has, fails. The call is step 3,
  \<open>from('users').insert(newUsers).select('id, phone_number')\<close>, one statement: all rows
  or none; \<open>add_users\<close> gives each new row its \<open>id\<close>.
\<close>

fun add_users :: "edge_env \<Rightarrow> (string \<times> string \<times> string) list \<Rightarrow> user_row list \<Rightarrow> user_row list" where
  "add_users ee [] table = table"
| "add_users ee ((phone, country, st) # rest) table =
     add_users ee rest
       (table @ [\<lparr>u_id = edge_new_user_id ee table, u_phone_number = phone,
                  u_country = country, u_status = st\<rparr>])"

definition insert_users ::
  "edge_env \<Rightarrow> (string \<times> string \<times> string) list \<Rightarrow> edge_world
   \<Rightarrow> (thrown + user_row list) \<times> edge_world" where
  "insert_users ee newUsers w =
     (case edge_db_request ee w of
        (Some err, w1) \<Rightarrow> (Inl err, w1)
      | (None, w1) \<Rightarrow>
          if \<not> distinct (map fst newUsers) \<or>
             list_ex (\<lambda>n. fst n \<in> set (map u_phone_number (users (e_db w1)))) newUsers
          then (Inl (edge_unique_violation ee), w1)
          else
            (let table = add_users ee newUsers (users (e_db w1))
             in (Inr (drop (length (users (e_db w1))) table),
                 w1\<lparr>e_db := (e_db w1)\<lparr>users := table\<rparr>\<rparr>)))"

text \<open>
  Step 5: \<open>from('campaign_recipients').select('user_id, unique_token')
  .eq('campaign_id', campaignId).in('user_id', userIds)\<close>
\<close>

definition select_recipients_in ::
  "edge_env \<Rightarrow> string \<Rightarrow> string list \<Rightarrow> edge_world \<Rightarrow> (thrown + recipient_row list) \<times> edge_world" where
  "select_recipients_in ee cid userIds w =
     (case edge_db_request ee w of
        (Some err, w1) \<Rightarrow> (Inl err, w1)
      | (None, w1) \<Rightarrow>
          (Inr (filter (\<lambda>r. cr_campaign_id r = cid \<and> cr_user_id r \<in> set userIds)
                  (campaign_recipients (e_db w1))), w1))"

text \<open>
  Modelled from the spec: the schema of the table \<open>campaign_recipients\<close> is not among the
  sources; \<open>(campaign_id, user_id)\<close> is unique (section 3), so an insert with a pair
  twice, or with one that a row already has, fails. The call is
  \<open>from('campaign_recipients').insert(newCampaignRecipients)\<close>, one statement.
\<close>

definition insert_recipients ::
  "edge_env \<Rightarrow> recipient_row list \<Rightarrow> edge_world \<Rightarrow> thrown option \<times> edge_world" where
  "insert_recipients ee rows w =
     (case edge_db_request ee w of
        (Some err, w1) \<Rightarrow> (Some err, w1)
      | (None, w1) \<Rightarrow>
          if \<not> distinct (map recipient_key rows) \<or>
             list_ex (\<lambda>r. recipient_key r \<in> set (map recipient_key (campaign_recipients (e_db w1)))) rows
          then (Some (edge_unique_violation ee), w1)
          else (None, w1\<lparr>e_db := (e_db w1)\<lparr>campaign_recipients :=
                                  campaign_recipients (e_db w1) @ rows\<rparr>\<rparr>))"

text \<open>
  \<open>from('campaign_recipients').update({ status: 'sent' }).eq('campaign_id', campaignId)
  .in('user_id', ids)\<close>; a failure is logged and nothing more.
\<close>

definition update_recipients_in ::
  "edge_env \<Rightarrow> string \<Rightarrow> string list \<Rightarrow> edge_world \<Rightarrow> edge_world" where
  "update_recipients_in ee cid ids w =
     (case edge_db_request ee w of
        (Some err, w1) \<Rightarrow> w1
      | (None, w1) \<Rightarrow>
          w1\<lparr>e_db := (e_db w1)\<lparr>campaign_recipients :=
                  map (\<lambda>r. if cr_campaign_id r = cid \<and> cr_user_id r \<in> set ids
                            then r\<lparr>cr_status := ''sent''\<rparr> else r)
                      (campaign_recipients (e_db w1))\<rparr>\<rparr>)"

text \<open>\<open>from('bulk_messages').insert(row)\<close>; a failure is logged and nothing more.\<close>

definition edge_log_bulk_message ::
  "edge_env \<Rightarrow> bulk_message_row \<Rightarrow> edge_world \<Rightarrow> edge_world" where
  "edge_log_bulk_message ee row w =
     (case edge_db_request ee w of
        (Some err, w1) \<Rightarrow> w1
      | (None, w1) \<Rightarrow> w1\<lparr>e_db := (e_db w1)\<lparr>bulk_messages := bulk_messages (e_db w1) @ [row]\<rparr>\<rparr>)"

definition edge_random_token :: "edge_env \<Rightarrow> edge_world \<Rightarrow> string \<times> edge_world" where
  "edge_random_token ee w =
     (map base36_char (take 8 (edge_random_digits ee (e_random_draws w))),
      w\<lparr>e_random_draws := Suc (e_random_draws w)\<rparr>)"

text \<open>A JSON response with a failure.\<close>

definition error_response :: "nat \<Rightarrow> string \<Rightarrow> http_response" where
  "error_response st msg = \<lparr>status = st, json = Some (failure_response msg)\<rparr>"

text \<open>
  Step 5, the loop over the recipients: the map from phone to token (as the list of its
  \<open>set\<close> calls) and the rows to insert.
\<close>

fun assign_tokens ::
  "edge_env \<Rightarrow> string \<Rightarrow> (string \<Rightarrow> string option) \<Rightarrow> (string \<Rightarrow> string option) \<Rightarrow> string list
   \<Rightarrow> (string \<times> string) list \<times> recipient_row list \<times> edge_world
   \<Rightarrow> (string \<times> string) list \<times> recipient_row list \<times> edge_world" where
  "assign_tokens ee cid userIdMap existingRecipientMap [] s = s"
| "assign_tokens ee cid userIdMap existingRecipientMap (phone # rest) (recipientTokenMap, newCampaignRecipients, w) =
     (case userIdMap phone of
        None \<Rightarrow> assign_tokens ee cid userIdMap existingRecipientMap rest
                  (recipientTokenMap, newCampaignRecipients, w)
      | Some userId \<Rightarrow>
          if truthy (existingRecipientMap userId) then
            assign_tokens ee cid userIdMap existingRecipientMap rest
              (recipientTokenMap @ [(phone, str_or (existingRecipientMap userId) [])],
               newCampaignRecipients, w)
          else
            (case edge_random_token ee w of
               (uniqueToken, w1) \<Rightarrow>
                 assign_tokens ee cid userIdMap existingRecipientMap rest
                   (recipientTokenMap @ [(phone, uniqueToken)],
                    newCampaignRecipients @
                      [\<lparr>cr_campaign_id = cid, cr_user_id = userId, cr_status = ''sent'',
                        cr_unique_token = uniqueToken\<rparr>],
                    w1)))"

text \<open>
  Steps 1 to 4: the map from phone to user id (only truthy ids are kept), or the response
  that ends the request.
\<close>

definition users_step ::
  "edge_env \<Rightarrow> string list \<Rightarrow> edge_world
   \<Rightarrow> (http_response + (string \<Rightarrow> string option)) \<times> edge_world" where
  "users_step ee recips w =
     (case select_users_in ee recips w of
        (Inl usersError, w1) \<Rightarrow>
          (Inl (error_response 500 ''Failed to fetch existing users from database''), w1)
      | (Inr existingUsers, w1) \<Rightarrow>
          (let existingUserMap = Map_get (map (\<lambda>u. (u_phone_number u, u_id u)) existingUsers);
               newUsers = map (\<lambda>phone. (phone, edge_detectCountryFromPhone phone, ''active''))
                            (filter (\<lambda>phone. existingUserMap phone = None) recips)
           in case (if newUsers \<noteq> [] then insert_users ee newUsers w1 else (Inr [], w1)) of
                (Inl insertError, w2) \<Rightarrow>
                  (Inl (error_response 500 ''Failed to create new users in database''), w2)
              | (Inr insertedUsers, w2) \<Rightarrow>
                  (let newUserMap = Map_get (map (\<lambda>u. (u_phone_number u, u_id u)) insertedUsers)
                   in (Inr (\<lambda>phone.
                              if phone \<in> set recips then
                                (if truthy (existingUserMap phone) then existingUserMap phone
                                 else if truthy (newUserMap phone) then newUserMap phone
                                 else None)
                              else None),
                       w2))))"

text \<open>
  Step 5: the map from phone to token (empty without a campaign), or the response that
  ends the request.
\<close>

definition recipients_step ::
  "edge_env \<Rightarrow> string option \<Rightarrow> string list \<Rightarrow> (string \<Rightarrow> string option) \<Rightarrow> edge_world
   \<Rightarrow> (http_response + (string \<times> string) list) \<times> edge_world" where
  "recipients_step ee campaign recips userIdMap w =
     (case campaign of
        None \<Rightarrow> (Inr [], w)
      | Some cid \<Rightarrow>
          (let userIds = concat (map (\<lambda>phone. case userIdMap phone of None \<Rightarrow> []
                                               | Some i \<Rightarrow> [i]) recips)
           in case select_recipients_in ee cid userIds w of
                (Inl recipientsError, w1) \<Rightarrow>
                  (Inl (error_response 500 ''Failed to fetch existing campaign recipients''), w1)
              | (Inr existingRecipients, w1) \<Rightarrow>
                  (let existingPairs = map (\<lambda>r. (cr_user_id r, cr_unique_token r)) existingRecipients;
                       existingRecipientMap = Map_get existingPairs
                   in case assign_tokens ee cid userIdMap existingRecipientMap recips ([], [], w1) of
                        (recipientTokenMap, newCampaignRecipients, w2) \<Rightarrow>
                          (case (if newCampaignRecipients \<noteq> []
                                 then insert_recipients ee newCampaignRecipients w2
                                 else (None, w2)) of
                             (Some insertRecipientsError, w3) \<Rightarrow>
                               (Inl (error_response 500 ''Failed to create campaign recipients''), w3)
                           | (None, w3) \<Rightarrow>
                               (let existingUserIds = map fst existingPairs;
                                    w4 = (if existingUserIds \<noteq> []
                                          then update_recipients_in ee cid existingUserIds w3
                                          else w3)
                                in (Inr recipientTokenMap, w4))))))"

text \<open>Step 6: one link per recipient.\<close>

definition personalized_link ::
  "string \<Rightarrow> string option \<Rightarrow> string option \<Rightarrow> (string \<times> string) list \<Rightarrow> string \<Rightarrow> string" where
  "personalized_link publicBaseUrl campaign campaignShortId campaignRecipientMap phone =
     (case Map_get campaignRecipientMap phone of
        Some token \<Rightarrow>
          if campaign \<noteq> None \<and> truthy campaignShortId
          then publicBaseUrl @ ''/c/'' @ str_or campaignShortId [] @ ''?token='' @ token
          else publicBaseUrl @ ''/'' @ token
      | None \<Rightarrow> publicBaseUrl)"

text \<open>Steps 8 to 13: the provider's token, the request to the provider, and its answer.\<close>

definition provider_error_message :: "SMSAPIResponse \<Rightarrow> int \<Rightarrow> string" where
  "provider_error_message smsData code =
     (case map_of
             [(11, ''Message too long or contains invalid characters''),
              (13, ''No valid phone numbers provided''),
              (14, ''Invalid sender name''),
              (101, ''Invalid authorization''),
              (103, ''Insufficient credits''),
              (105, ''IP address not allowed''),
              (112, ''Sending to this country is restricted''),
              (203, ''Too many requests, please try again later'')] code of
        Some m \<Rightarrow> m
      | None \<Rightarrow> ''SMS API Error: '' @
                (if truthy (api_message smsData) then str_or (api_message smsData) []
                 else (if code < 0 then ''-'' else []) @ show_nat (nat \<bar>code\<bar>)))"

definition send_step ::
  "edge_env \<Rightarrow> string list \<Rightarrow> string \<Rightarrow> string \<Rightarrow> bool \<Rightarrow> string option \<Rightarrow> string
   \<Rightarrow> string option \<Rightarrow> (string \<Rightarrow> string option) \<Rightarrow> edge_world \<Rightarrow> http_response \<times> edge_world" where
  "send_step ee recips msg sndr tst campaign finalMessage param1Value userIdMap w =
     (if \<not> truthy (SMSAPI_TOKEN ee) then (error_response 500 ''SMSAPI token not configured'', w)
      else
        (let request = \<lparr>pr_authorization = ''Bearer '' @ str_or (SMSAPI_TOKEN ee) [],
                        pr_to = str_join '','' recips, pr_message = finalMessage,
                        pr_from = sndr,
                        pr_param1 = (if truthy param1Value then param1Value else None),
                        pr_test = tst\<rparr>;
             w1 = w\<lparr>e_fetches := e_fetches w @ [request]\<rparr>
         in case fetch_reply ee request of
              FetchThrows err \<Rightarrow>
                (error_response 500 (thrown_message ''Unknown error occurred'' err), w1)
            | Unparseable responseText \<Rightarrow>
                (error_response 500 ''Invalid response from SMS provider'', w1)
            | Parsed smsData \<Rightarrow>
                (case (case api_error smsData of None \<Rightarrow> None
                       | Some code \<Rightarrow> if code = 0 then None else Some code) of
                   Some code \<Rightarrow>
                     (let w2 = (if \<not> tst
                                then edge_log_bulk_message ee
                                       \<lparr>bm_type = ''sms'', bm_content = msg,
                                        bm_recipient_count = length recips, bm_sent_count = 0,
                                        bm_status = ''failed'', bm_completed_at = edge_now_iso ee,
                                        bm_campaign_id = campaign\<rparr> w1
                                else w1)
                      in (\<lparr>status = 400,
                           json = Some ((failure_response (provider_error_message smsData code))
                                    \<lparr>errorCode := Some code,
                                     invalidNumbers := Some (case api_invalid_numbers smsData of
                                                               None \<Rightarrow> [] | Some ns \<Rightarrow> ns)\<rparr>)\<rparr>,
                          w2))
                 | None \<Rightarrow>
                     (let sent = (case api_count smsData of None \<Rightarrow> 0 | Some n \<Rightarrow> n);
                          ids = (case api_list smsData of None \<Rightarrow> []
                                 | Some items \<Rightarrow> map item_id items);
                          totalCost = (case api_list smsData of None \<Rightarrow> 0
                                       | Some items \<Rightarrow>
                                           fold (\<lambda>item sum. double_add sum (item_points item))
                                             items 0);
                          successfulUserIds =
                            (case api_list smsData of
                               None \<Rightarrow> []
                             | Some items \<Rightarrow>
                                 concat (map (\<lambda>phone. case userIdMap phone of None \<Rightarrow> []
                                                       | Some i \<Rightarrow> [i])
                                           (filter (\<lambda>phone. phone \<in> set (map item_number items))
                                              recips)));
                          w2 = (if campaign \<noteq> None \<and> successfulUserIds \<noteq> []
                                then update_recipients_in ee (str_or campaign []) successfulUserIds w1
                                else w1);
                          w3 = (if \<not> tst
                                then edge_log_bulk_message ee
                                       \<lparr>bm_type = ''sms'', bm_content = msg,
                                        bm_recipient_count = length recips, bm_sent_count = sent,
                                        bm_status = (if sent > 0 then ''completed'' else ''failed''),
                                        bm_completed_at = edge_now_iso ee,
                                        bm_campaign_id = campaign\<rparr> w2
                                else w2)
                      in (\<lparr>status = 200,
                           json = Some \<lparr>success = True, sentCount = Some sent,
                                       totalRecipients = Some (length recips),
                                       messageIds = Some ids, cost = Some totalCost,
                                       currency = Some ''EUR'', error = None, errorCode = None,
                                       invalidNumbers = Some (case api_invalid_numbers smsData of
                                                                None \<Rightarrow> [] | Some ns \<Rightarrow> ns),
                                       errors = None\<rparr>\<rparr>,
                          w3)))))"

text \<open>The handler.\<close>

definition edge_handler :: "edge_env \<Rightarrow> http_request \<Rightarrow> edge_world \<Rightarrow> http_response \<times> edge_world" where
  "edge_handler ee request w =
     (case request of
        OPTIONS \<Rightarrow> (\<lparr>status = 200, json = None\<rparr>, w)
      | POST_unreadable err \<Rightarrow>
          (error_response 500 (thrown_message ''Unknown error occurred'' err), w)
      | POST body \<Rightarrow>
          (case er_recipients body of
             None \<Rightarrow> (error_response 400 ''Recipients array is required and cannot be empty'', w)
           | Some recips \<Rightarrow>
               if recips = []
               then (error_response 400 ''Recipients array is required and cannot be empty'', w)
               else if \<not> truthy (er_message body) \<or> trim (str_or (er_message body) []) = []
               then (error_response 400 ''Message content is required'', w)
               else if \<not> truthy (SUPABASE_URL ee) \<or> \<not> truthy (SUPABASE_SERVICE_ROLE_KEY ee)
               then (error_response 500 ''Supabase configuration missing'', w)
               else
                 (let msg = str_or (er_message body) [];
                      sndr = (case er_sender body of None \<Rightarrow> ''BulkComm'' | Some x \<Rightarrow> x);
                      tst = (er_test body = Some True);
                      campaign = (if truthy (er_campaignId body) then er_campaignId body else None);
                      publicBaseUrl = str_or (PUBLIC_BASE_URL ee) ''https://your-domain.com'';
                      hasLink = str_includes msg ''{{ link }}''
                  in case (if campaign \<noteq> None \<and> hasLink
                           then (case edge_select_campaign ee (str_or campaign []) w of
                                   (Inl campaignError, w1) \<Rightarrow>
                                     (Inl (error_response 400 ''Campaign not found or invalid campaign ID''), w1)
                                 | (Inr short_id, w1) \<Rightarrow> (Inr (Some short_id), w1))
                           else (Inr None, w)) of
                       (Inl response, w1) \<Rightarrow> (response, w1)
                     | (Inr campaignShortId, w1) \<Rightarrow>
                         (case users_step ee recips w1 of
                            (Inl response, w2) \<Rightarrow> (response, w2)
                          | (Inr userIdMap, w2) \<Rightarrow>
                              (case recipients_step ee campaign recips userIdMap w2 of
                                 (Inl response, w3) \<Rightarrow> (response, w3)
                               | (Inr campaignRecipientMap, w3) \<Rightarrow>
                                   (let personalizedLinks =
                                          (if hasLink
                                           then map (personalized_link publicBaseUrl campaign
                                                       campaignShortId campaignRecipientMap) recips
                                           else []);
                                        personalize = hasLink \<and> personalizedLinks \<noteq> [];
                                        finalMessage = (if personalize then replace_link (trim msg)
                                                        else trim msg);
                                        param1Value = (if personalize
                                                       then Some (str_join ''|'' personalizedLinks)
                                                       else None)
                                    in send_step ee recips msg sndr tst campaign finalMessage
                                         param1Value userIdMap w3))))))"


section \<open>Predicates the statements use\<close>

text \<open>The pairs of a campaign and a user with their token, whatever the status.\<close>

definition token_rows :: "world \<Rightarrow> (string \<times> string \<times> string) set" where
  "token_rows w =
     (\<lambda>r. (cr_campaign_id r, cr_user_id r, cr_unique_token r)) ` set (campaign_recipients (db w))"

text \<open>No stored token holds the separator \<open>|\<close> of the personalization parameter.\<close>

definition pipe_free :: "world \<Rightarrow> bool" where
  "pipe_free w =
     list_all (\<lambda>r. CHR ''|'' \<notin> set (cr_unique_token r)) (campaign_recipients (db w))"

text \<open>The uniqueness constraints: one user per phone number, one recipient row per key.\<close>

definition uniq_db :: "world \<Rightarrow> bool" where
  "uniq_db w =
     (distinct (map u_phone_number (users (db w))) \<and>
      distinct (map recipient_key (campaign_recipients (db w))))"

text \<open>
  What resolving recipients does to the world at most: it sends nothing, reports no
  progress, logs no bulk message; users and token rows are only added, and the two
  predicates above are kept.
\<close>

definition resolve_step :: "world \<Rightarrow> world \<Rightarrow> bool" where
  "resolve_step w w' =
     (invocations w' = invocations w \<and> progress_log w' = progress_log w \<and>
      sending_log w' = sending_log w \<and> bulk_messages (db w') = bulk_messages (db w) \<and>
      set (users (db w)) \<subseteq> set (users (db w')) \<and> token_rows w \<subseteq> token_rows w' \<and>
      random_draws w \<le> random_draws w' \<and> db_requests w \<le> db_requests w' \<and>
      (pipe_free w \<longrightarrow> pipe_free w') \<and> (uniq_db w \<longrightarrow> uniq_db w'))"

text \<open>Users, token rows and random draws are only added.\<close>

definition grows :: "world \<Rightarrow> world \<Rightarrow> bool" where
  "grows w w' =
     (set (users (db w)) \<subseteq> set (users (db w')) \<and> token_rows w \<subseteq> token_rows w' \<and>
      random_draws w \<le> random_draws w' \<and> (pipe_free w \<longrightarrow> pipe_free w'))"

text \<open>
  \<open>link\<close> is a link of the recipient \<open>phone\<close> in the world \<open>w\<close>: it is empty, or it is the
  origin, a slash and a token, where the token is, with a campaign, the token of the
  campaign's row for a user with that phone number, and without one, a token drawn so far.
\<close>

definition link_matches :: "env \<Rightarrow> SMSRequest \<Rightarrow> world \<Rightarrow> string \<Rightarrow> string \<Rightarrow> bool" where
  "link_matches e req w phone link =
     (link = [] \<or>
      (case campaign_of req of
         Some cid \<Rightarrow>
           list_ex (\<lambda>u. u_phone_number u = phone \<and>
                      list_ex (\<lambda>r. cr_campaign_id r = cid \<and> cr_user_id r = u_id u \<and>
                                  link = location_origin e @ ''/'' @ cr_unique_token r)
                        (campaign_recipients (db w)))
             (users (db w))
       | None \<Rightarrow>
           list_ex (\<lambda>n. link = location_origin e @ ''/'' @
                          map base36_char (take 8 (random_digits e n)))
             [0..<random_draws w]))"

text \<open>
  The invocation \<open>c\<close> carries a personalization parameter whose \<open>|\<close>-separated
  segments are, position by position, links of its recipients.
\<close>

definition call_personalized :: "env \<Rightarrow> SMSRequest \<Rightarrow> world \<Rightarrow> invoke_body \<Rightarrow> bool" where
  "call_personalized e req w c =
     (case body_param1 c of
        None \<Rightarrow> False
      | Some p \<Rightarrow> list_all2 (link_matches e req w) (body_recipients c) (str_split CHR ''|'' p))"






text \<open>The body of the one invocation of a plain send (\<open>sendBulkSMS\<close> called by \<open>sendSMS\<close>).\<close>

definition plain_body :: "SMSRequest \<Rightarrow> invoke_body" where
  "plain_body req =
     \<lparr>body_recipients = validRecipients req, body_message = trim (message req),
      body_sender = str_or (sender req) ''BulkComm'', body_test = (test req = Some True),
      body_param1 = None\<rparr>"

text \<open>
  What the database steps of the edge function leave as it is: the requests sent to the
  provider and the rows of \<open>bulk_messages\<close>.
\<close>

definition edge_frame :: "edge_world \<Rightarrow> edge_world \<Rightarrow> bool" where
  "edge_frame w w' =
     (e_fetches w' = e_fetches w \<and> bulk_messages (e_db w') = bulk_messages (e_db w))"

text \<open>What the loops leave of \<open>results\<close>: errors are only added.\<close>

definition res_step :: "results \<Rightarrow> results \<Rightarrow> bool" where
  "res_step res res' =
     (r_success res' = r_success res \<and> r_error res' = r_error res \<and>
      r_totalRecipients res' = r_totalRecipients res \<and> prefix (r_errors res) (r_errors res'))"

text \<open>What an answer of the edge function adds to \<open>results.sentCount\<close>.\<close>

definition reply_sent :: "invoke_result \<Rightarrow> int" where
  "reply_sent reply =
     (case reply of
        InvokeData smsData \<Rightarrow>
          if success smsData then (case sentCount smsData of None \<Rightarrow> 0 | Some n \<Rightarrow> n) else 0
      | _ \<Rightarrow> 0)"

text \<open>The answers to the invocations \<open>bodies\<close>, the first of which is the \<open>n\<close>-th.\<close>

definition replies :: "env \<Rightarrow> nat \<Rightarrow> invoke_body list \<Rightarrow> invoke_result list" where
  "replies e n bodies = map (\<lambda>(i, body). functions_invoke e i body) (enumerate n bodies)"

text \<open>
  The progress after \<open>completed\<close> of \<open>total\<close> batches as the specification words it:
  \<open>round(100 * completedBatches / totalBatches)\<close>, capped at 90 (the quotient taken
  exactly).
\<close>

definition spec_progress :: "nat \<Rightarrow> nat \<Rightarrow> int" where
  "spec_progress completedBatches totalBatches =
     min 90 (Math_round (100 * rat_of_nat completedBatches / rat_of_nat totalBatches))"


section \<open>Example inputs\<close>

text \<open>
  An environment in which the database answers, every draw gives the token \<open>ABC12345\<close>
  and the edge function reports every recipient as sent; a world with an empty database;
  a request to \<open>n\<close> times the same number, without a campaign.
\<close>

definition example_env :: env where
  "example_env =
     \<lparr>normalizePhoneNumber = (\<lambda>p. p), detectCountryFromPhone = (\<lambda>p. None),
      location_origin = ''https://app.example'',
      random_digits = (\<lambda>n. [10, 11, 12, 1, 2, 3, 4, 5, 6, 7]),
      db_fault = (\<lambda>n. None),
      no_rows_error = ErrorObject ''no rows'',
      unique_violation = ErrorObject ''duplicate key'',
      new_user_id = (\<lambda>us. ''u'' @ show_nat (length us)), now_iso = ''2024-01-01T00:00:00.000Z'',
      functions_invoke = (\<lambda>n b. InvokeData
         \<lparr>success = True, sentCount = Some (int (length (body_recipients b))),
          totalRecipients = Some (length (body_recipients b)), messageIds = Some [],
          cost = Some 0, currency = Some ''EUR'', error = None, errorCode = None,
          invalidNumbers = None, errors = None\<rparr>)\<rparr>"

definition empty_world :: world where
  "empty_world =
     \<lparr>db = \<lparr>campaigns = [], users = [], campaign_recipients = [], bulk_messages = []\<rparr>,
      db_requests = 0, random_draws = 0, invocations = [], progress_log = [], sending_log = []\<rparr>"

definition link_request :: "string \<Rightarrow> nat \<Rightarrow> SMSRequest" where
  "link_request msg n =
     \<lparr>recipients = Some (replicate n (Some ''+359888123456'')), message = msg,
      sender = None, test = None, campaignId = None, param1 = None\<rparr>"

definition zero_count_env :: env where
  "zero_count_env =
     example_env\<lparr>functions_invoke := (\<lambda>n b. InvokeData
        \<lparr>success = True, sentCount = Some 0,
         totalRecipients = Some (length (body_recipients b)), messageIds = Some [],
         cost = Some 0, currency = Some ''EUR'', error = None, errorCode = None,
         invalidNumbers = Some [], errors = None\<rparr>)\<rparr>"

definition plain_request :: SMSRequest where
  "plain_request =
     \<lparr>recipients = Some [Some ''+359888123456''], message = ''Hello'',
      sender = None, test = None, campaignId = None, param1 = None\<rparr>"

definition gateway_down_env :: env where
  "gateway_down_env =
     example_env\<lparr>functions_invoke := (\<lambda>n b. InvokeThrows (ErrorObject ''Failed to fetch''))\<rparr>"

definition campaign_request :: SMSRequest where
  "campaign_request =
     \<lparr>recipients = Some [Some ''+359888123456''], message = ''Visit {{ link }}'',
      sender = None, test = None, campaignId = Some ''c1'', param1 = None\<rparr>"

definition existing_world :: world where
  "existing_world =
     empty_world\<lparr>db :=
       \<lparr>campaigns = [(''c1'', ''spring'')],
        users = [\<lparr>u_id = ''u0'', u_phone_number = ''+359888123456'', u_country = ''BG'',
                  u_status = ''active''\<rparr>],
        campaign_recipients = [\<lparr>cr_campaign_id = ''c1'', cr_user_id = ''u0'',
                                cr_status = ''queued'', cr_unique_token = ''TOKEN123''\<rparr>],
        bulk_messages = []\<rparr>\<rparr>"

definition lookup_fault_env :: env where
  "lookup_fault_env =
     example_env\<lparr>db_fault := (\<lambda>n. if n = 1 then Some (ErrorObject ''connection reset'') else None)\<rparr>"

definition example_edge_env :: edge_env where
  "example_edge_env =
     \<lparr>SUPABASE_URL = Some ''https://project.supabase.example'',
      SUPABASE_SERVICE_ROLE_KEY = Some ''service-role-key'',
      PUBLIC_BASE_URL = Some ''https://app.example'',
      SMSAPI_TOKEN = Some ''provider-token'',
      edge_random_digits = (\<lambda>n. [10, 11, 12, 1, 2, 3, 4, 5, 6, 7]),
      edge_db_fault = (\<lambda>n. None),
      edge_unique_violation = ErrorObject ''duplicate key'',
      edge_no_rows_error = ErrorObject ''no rows'',
      edge_new_user_id = (\<lambda>us. ''u'' @ show_nat (length us)),
      edge_now_iso = ''2024-01-01T00:00:00.000Z'',
      fetch_reply = (\<lambda>r. Parsed \<lparr>api_count = Some 1,
                                     api_list = Some [\<lparr>item_id = ''m1'', item_points = 1,
                                                       item_number = pr_to r\<rparr>],
                                     api_invalid_numbers = None, api_error = None,
                                     api_message = None\<rparr>)\<rparr>"

definition edge_world0 :: edge_world where
  "edge_world0 =
     \<lparr>e_db = \<lparr>campaigns = [(''c1'', ''spring'')], users = [], campaign_recipients = [],
              bulk_messages = []\<rparr>,
      e_db_requests = 0, e_random_draws = 0, e_fetches = []\<rparr>"

definition edge_campaign_request :: edge_request where
  "edge_campaign_request =
     \<lparr>er_recipients = Some [''+359888123456''], er_message = Some ''Visit {{ link }}'',
      er_sender = None, er_test = None, er_campaignId = Some ''c1''\<rparr>"

section \<open>The batches\<close>

declare make_batches.simps [simp del]

lemma length_make_batches: "length (make_batches i xs) = (length xs - i + 99) div 100"
proof (induction i xs rule: make_batches.induct)
  case (1 i xs)
  show ?case
  proof (cases "i < length xs")
    case True
    then have "length (make_batches i xs) = Suc ((length xs - (i + 100) + 99) div 100)"
      using 1 by (subst make_batches.simps) simp
    also have "\<dots> = (length xs - i + 99) div 100"
    proof (cases "i + 100 \<le> length xs")
      case True
      then have "length xs - i + 99 = (length xs - (i + 100) + 99) + 100" by simp
      then show ?thesis by (simp only: div_add_self2)
    next
      case False
      with \<open>i < length xs\<close> have "length xs - (i + 100) = 0"
        and "100 \<le> length xs - i + 99" and "length xs - i + 99 < 200" by simp_all
      then have "(length xs - i + 99) div 100 = 1"
        by (intro div_nat_eqI) simp_all
      with \<open>length xs - (i + 100) = 0\<close> show ?thesis by simp
    qed
    finally show ?thesis .
  next
    case False
    then show ?thesis by (subst make_batches.simps) simp
  qed
qed


lemma make_batches_sizes: "b \<in> set (make_batches i xs) \<Longrightarrow> b \<noteq> [] \<and> length b \<le> 100"
proof (induction i xs rule: make_batches.induct)
  case (1 i xs)
  show ?case
  proof (cases "i < length xs")
    case True
    then have eq: "make_batches i xs = take 100 (drop i xs) # make_batches (i + 100) xs"
      by (subst make_batches.simps) simp
    from 1(2) eq have "b = take 100 (drop i xs) \<or> b \<in> set (make_batches (i + 100) xs)"
      by simp
    then show ?thesis
    proof
      assume "b = take 100 (drop i xs)"
      with True show ?thesis by simp
    next
      assume "b \<in> set (make_batches (i + 100) xs)"
      with 1(1)[OF True] show ?thesis by simp
    qed
  next
    case False
    then have "make_batches i xs = []" by (subst make_batches.simps) simp
    with 1(2) show ?thesis by simp
  qed
qed


section \<open>What resolving a recipient does to the world\<close>

lemma resolve_step_refl: "resolve_step w w"
  by (simp add: resolve_step_def)

lemma resolve_step_trans:
  assumes ab: "resolve_step a b" and bc: "resolve_step b c"
  shows "resolve_step a c"
proof -
  have "set (users (db a)) \<subseteq> set (users (db c))"
    using ab bc unfolding resolve_step_def by (elim conjE) (erule (1) subset_trans)
  moreover have "token_rows a \<subseteq> token_rows c"
    using ab bc unfolding resolve_step_def by (elim conjE) (erule (1) subset_trans)
  moreover have "random_draws a \<le> random_draws c" "db_requests a \<le> db_requests c"
    using ab bc unfolding resolve_step_def by simp_all
  moreover have "invocations c = invocations a" "progress_log c = progress_log a"
    "sending_log c = sending_log a" "bulk_messages (db c) = bulk_messages (db a)"
    using ab bc unfolding resolve_step_def by simp_all
  moreover have "pipe_free a \<longrightarrow> pipe_free c" "uniq_db a \<longrightarrow> uniq_db c"
    using ab bc unfolding resolve_step_def by simp_all
  ultimately show ?thesis unfolding resolve_step_def by simp
qed

lemma db_request_step: "db_request e w = (f, w1) \<Longrightarrow> resolve_step w w1"
  by (auto simp: db_request_def resolve_step_def token_rows_def pipe_free_def uniq_db_def)

lemma select_campaign_step: "select_campaign_short_id e cid w = (r, w1) \<Longrightarrow> resolve_step w w1"
  by (auto simp: select_campaign_short_id_def split: prod.splits option.splits list.splits
           dest: db_request_step)

lemma select_user_step: "select_user_single e phone w = (r, w1) \<Longrightarrow> resolve_step w w1"
  by (auto simp: select_user_single_def split: prod.splits option.splits list.splits
           dest: db_request_step)

lemma select_recipient_step: "select_recipient_single e cid uid w = (r, w1) \<Longrightarrow> resolve_step w w1"
  by (auto simp: select_recipient_single_def split: prod.splits option.splits list.splits
           dest: db_request_step)

lemma random_token_step: "random_token e w = (t, w1) \<Longrightarrow> resolve_step w w1"
  by (auto simp: random_token_def resolve_step_def token_rows_def pipe_free_def uniq_db_def)

lemma insert_user_step: "insert_user e phone country st w = (r, w1) \<Longrightarrow> resolve_step w w1"
  unfolding insert_user_def db_request_def
  by (auto simp: resolve_step_def token_rows_def pipe_free_def uniq_db_def Let_def
           split: option.splits if_splits)

lemma insert_recipient_step:
  "insert_recipient e row w = (r, w1) \<Longrightarrow> CHR ''|'' \<notin> set (cr_unique_token row)
   \<Longrightarrow> resolve_step w w1"
  unfolding insert_recipient_def db_request_def
  by (auto simp: resolve_step_def token_rows_def pipe_free_def uniq_db_def Let_def
           split: option.splits if_splits)

lemma update_status_step: "resolve_step w (update_recipient_status e cid uid st w)"
proof -
  let ?f = "\<lambda>r. if recipient_key r = (cid, uid) then r\<lparr>cr_status := st\<rparr> else r"
  let ?g = "\<lambda>r. (cr_campaign_id r, cr_user_id r, cr_unique_token r)"
  have k: "map recipient_key (map ?f rows) = map recipient_key rows" for rows
    by (induction rows) (simp_all add: recipient_key_def)
  have t: "?g ` set (map ?f rows) = ?g ` set rows" for rows
    by (induction rows) simp_all
  have p: "list_all (\<lambda>r. CHR ''|'' \<notin> set (cr_unique_token r)) (map ?f rows)
         = list_all (\<lambda>r. CHR ''|'' \<notin> set (cr_unique_token r)) rows" for rows
    by (induction rows) simp_all
  show ?thesis
  proof (cases "db_fault e (db_requests w)")
    case None
    then show ?thesis
      unfolding update_recipient_status_def db_request_def resolve_step_def token_rows_def
        pipe_free_def uniq_db_def
      by (simp add: k t p del: set_map map_map)
  next
    case (Some err)
    then show ?thesis
      unfolding update_recipient_status_def db_request_def resolve_step_def token_rows_def
        pipe_free_def uniq_db_def
      by simp
  qed
qed


lemma base36_char_not_pipe: "base36_char d \<noteq> CHR ''|''"
proof -
  have "base36_char d \<in> set ''0123456789ABCDEFGHIJKLMNOPQRSTUVWXYZ''"
    unfolding base36_char_def by (rule nth_mem) simp
  then show ?thesis by auto
qed

lemma random_token_pipe_free: "random_token e w = (t, w1) \<Longrightarrow> CHR ''|'' \<notin> set t"
  by (auto simp: random_token_def base36_char_not_pipe[THEN not_sym])

lemma filter_single_mem: "filter P xs = [x] \<Longrightarrow> x \<in> set xs \<and> P x"
proof -
  assume "filter P xs = [x]"
  then have "x \<in> set (filter P xs)" by simp
  then show ?thesis by simp
qed

lemma distinct_map_filter_single:
  "distinct (map f xs) \<Longrightarrow> x \<in> set xs \<Longrightarrow> filter (\<lambda>y. f y = f x) xs = [x]"
proof (induction xs)
  case Nil
  then show ?case by simp
next
  case (Cons a xs)
  show ?case
  proof (cases "a = x")
    case True
    with Cons.prems have "f x \<notin> f ` set xs" by simp
    then have "\<forall>y\<in>set xs. f y \<noteq> f x" by (metis imageI)
    then have "filter (\<lambda>y. f y = f x) xs = []" by (simp add: filter_empty_conv)
    with True show ?thesis by simp
  next
    case False
    with Cons.prems have "x \<in> set xs" and "f a \<noteq> f x" by auto
    with Cons show ?thesis by simp
  qed
qed

lemma find_or_create_user_step:
  "find_or_create_user e np w = (r, w1) \<Longrightarrow> resolve_step w w1"
  unfolding find_or_create_user_def
  by (auto simp: Let_def split: prod.splits sum.splits
           intro: resolve_step_trans select_user_step insert_user_step)

lemma find_or_create_recipient_step:
  assumes "find_or_create_recipient e cid uid w = (r, w1)"
  shows "resolve_step w w1"
proof -
  obtain sr wa where s: "select_recipient_single e cid uid w = (sr, wa)" by force
  have a: "resolve_step w wa" by (rule select_recipient_step[OF s])
  show ?thesis
  proof (cases sr)
    case (Inl err)
    obtain t wb where t: "random_token e wa = (t, wb)" by force
    obtain ir wc where i: "insert_recipient e
        \<lparr>cr_campaign_id = cid, cr_user_id = uid, cr_status = ''sent'', cr_unique_token = t\<rparr> wb
        = (ir, wc)" by force
    have b: "resolve_step wa wb" by (rule random_token_step[OF t])
    have c: "resolve_step wb wc"
      by (rule insert_recipient_step[OF i]) (simp add: random_token_pipe_free[OF t])
    have "w1 = wc"
      using assms s Inl t i by (simp add: find_or_create_recipient_def split: option.splits)
    with a b c show ?thesis by (blast intro: resolve_step_trans)
  next
    case (Inr row)
    then have "w1 = update_recipient_status e cid uid ''sent'' wa"
      using assms s by (simp add: find_or_create_recipient_def)
    with a update_status_step show ?thesis by (blast intro: resolve_step_trans)
  qed
qed

lemma resolve_token_step:
  assumes "resolve_token e req hl np w = (r, w1)"
  shows "resolve_step w w1"
proof (cases "campaign_of req")
  case None
  show ?thesis
  proof (cases hl)
    case True
    obtain t wa where t: "random_token e w = (t, wa)" by force
    with assms None True have "w1 = wa" by (simp add: resolve_token_def)
    with random_token_step[OF t] show ?thesis by simp
  next
    case False
    with assms None have "w1 = w" by (simp add: resolve_token_def)
    then show ?thesis by (simp add: resolve_step_refl)
  qed
next
  case (Some cid)
  obtain cd wa where c: "select_campaign_short_id e cid w = (cd, wa)" by force
  obtain ur wb where u: "find_or_create_user e np wa = (ur, wb)" by force
  have a: "resolve_step w wb"
    by (rule resolve_step_trans[OF select_campaign_step[OF c] find_or_create_user_step[OF u]])
  show ?thesis
  proof (cases ur)
    case (Inl err)
    with assms Some c u have "w1 = wb" by (simp add: resolve_token_def)
    with a show ?thesis by simp
  next
    case (Inr uid)
    with assms Some c u have "find_or_create_recipient e cid uid wb = (r, w1)"
      by (simp add: resolve_token_def)
    from resolve_step_trans[OF a find_or_create_recipient_step[OF this]] show ?thesis .
  qed
qed


lemma select_user_found:
  "select_user_single e np w = (Inr u, wa) \<Longrightarrow> u \<in> set (users (db wa)) \<and> u_phone_number u = np"
  unfolding select_user_single_def db_request_def
  by (auto split: option.splits list.splits dest!: filter_single_mem)

lemma insert_user_found:
  "insert_user e np c st w = (Inr u, wa) \<Longrightarrow> u \<in> set (users (db wa)) \<and> u_phone_number u = np"
  unfolding insert_user_def db_request_def
  by (auto simp: Let_def split: option.splits if_splits)

lemma find_or_create_user_found:
  assumes "find_or_create_user e np w = (Inr uid, w1)"
  shows "\<exists>u\<in>set (users (db w1)). u_phone_number u = np \<and> u_id u = uid"
proof -
  obtain sr wa where s: "select_user_single e np w = (sr, wa)" by force
  show ?thesis
  proof (cases sr)
    case (Inl err)
    obtain ir wb where i: "insert_user e np
        (str_or (detectCountryFromPhone e np) ''Unknown'') ''active'' wa = (ir, wb)" by force
    with assms s Inl obtain u where "ir = Inr u" "uid = u_id u" "w1 = wb"
      by (auto simp: find_or_create_user_def Let_def split: sum.splits)
    with insert_user_found i show ?thesis by blast
  next
    case (Inr u)
    with assms s have "uid = u_id u" "w1 = wa" by (simp_all add: find_or_create_user_def)
    with select_user_found s Inr show ?thesis by blast
  qed
qed

lemma select_recipient_found:
  "select_recipient_single e cid uid w = (Inr row, wa)
   \<Longrightarrow> row \<in> set (campaign_recipients (db wa)) \<and> recipient_key row = (cid, uid)"
  unfolding select_recipient_single_def db_request_def
  by (auto split: option.splits list.splits dest!: filter_single_mem)

lemma insert_recipient_found:
  "insert_recipient e row w = (None, wa) \<Longrightarrow> row \<in> set (campaign_recipients (db wa))"
  unfolding insert_recipient_def db_request_def
  by (auto split: option.splits if_splits)

lemma find_or_create_recipient_found:
  assumes "find_or_create_recipient e cid uid w = (Inr tok, w1)"
  shows "(cid, uid, tok) \<in> token_rows w1"
proof -
  obtain sr wa where s: "select_recipient_single e cid uid w = (sr, wa)" by force
  show ?thesis
  proof (cases sr)
    case (Inl err)
    obtain t wb where t: "random_token e wa = (t, wb)" by force
    obtain ir wc where i: "insert_recipient e
        \<lparr>cr_campaign_id = cid, cr_user_id = uid, cr_status = ''sent'', cr_unique_token = t\<rparr> wb
        = (ir, wc)" by force
    from assms s Inl t i have "ir = None" "tok = t" "w1 = wc"
      by (auto simp: find_or_create_recipient_def split: option.splits)
    with insert_recipient_found i show ?thesis
      unfolding token_rows_def by force
  next
    case (Inr row)
    with assms s have tok: "tok = cr_unique_token row"
      and w1: "w1 = update_recipient_status e cid uid ''sent'' wa"
      by (simp_all add: find_or_create_recipient_def)
    from select_recipient_found s Inr have "row \<in> set (campaign_recipients (db wa))"
      and "recipient_key row = (cid, uid)" by blast+
    then have "(cid, uid, tok) \<in> token_rows wa"
      unfolding token_rows_def recipient_key_def tok by force
    moreover have "token_rows wa \<subseteq> token_rows w1"
      using update_status_step[of wa e cid uid "''sent''"] w1 by (simp add: resolve_step_def)
    ultimately show ?thesis by blast
  qed
qed

lemma link_matches_iff:
  "link_matches e req w phone link \<longleftrightarrow>
     link = [] \<or>
     (case campaign_of req of
        Some cid \<Rightarrow> \<exists>u\<in>set (users (db w)). u_phone_number u = phone \<and>
                     (\<exists>tok. (cid, u_id u, tok) \<in> token_rows w \<and> link = location_origin e @ ''/'' @ tok)
      | None \<Rightarrow> \<exists>n<random_draws w. link = location_origin e @ ''/'' @
                                        map base36_char (take 8 (random_digits e n)))"
proof (cases "campaign_of req")
  case None
  then show ?thesis unfolding link_matches_def list_ex_iff by auto
next
  case (Some cid)
  have "(\<exists>r\<in>set (campaign_recipients (db w)). cr_campaign_id r = cid \<and> cr_user_id r = uid \<and>
            link = location_origin e @ ''/'' @ cr_unique_token r)
        \<longleftrightarrow> (\<exists>tok. (cid, uid, tok) \<in> token_rows w \<and> link = location_origin e @ ''/'' @ tok)"
    for uid
    unfolding token_rows_def by (simp add: image_iff) blast
  with Some show ?thesis unfolding link_matches_def list_ex_iff by simp
qed

lemma link_matches_grows:
  assumes "grows w w'" and "link_matches e req w phone link"
  shows "link_matches e req w' phone link"
proof (cases "campaign_of req")
  case None
  with assms show ?thesis unfolding link_matches_iff grows_def by (auto intro: less_le_trans)
next
  case (Some cid)
  with assms show ?thesis unfolding link_matches_iff grows_def by (simp, blast)
qed

lemma resolve_step_grows: "resolve_step w w' \<Longrightarrow> grows w w'"
  by (simp add: resolve_step_def grows_def)

lemma grows_refl: "grows w w"
  by (simp add: grows_def)

lemma grows_trans: "grows a b \<Longrightarrow> grows b c \<Longrightarrow> grows a c"
  unfolding grows_def by (elim conjE, intro conjI) (erule (1) subset_trans, erule (1) subset_trans, simp, simp)

lemma resolve_token_link:
  assumes "resolve_token e req hl np w = (Inr tok, w1)"
  shows "link_matches e req w1 np (link_of e hl tok)"
proof (cases "hl \<and> tok \<noteq> []")
  case False
  then show ?thesis by (auto simp: link_matches_def link_of_def)
next
  case True
  then have l: "link_of e hl tok = location_origin e @ ''/'' @ tok" by (simp add: link_of_def)
  show ?thesis
  proof (cases "campaign_of req")
    case None
    with assms True have "tok = map base36_char (take 8 (random_digits e (random_draws w)))"
      and "random_draws w1 = Suc (random_draws w)"
      by (auto simp: resolve_token_def random_token_def)
    with None l show ?thesis unfolding link_matches_iff by auto
  next
    case (Some cid)
    obtain cd wa where c: "select_campaign_short_id e cid w = (cd, wa)" by force
    obtain ur wb where u: "find_or_create_user e np wa = (ur, wb)" by force
    from assms Some c u obtain uid where ur: "ur = Inr uid"
      and f: "find_or_create_recipient e cid uid wb = (Inr tok, w1)"
      by (auto simp: resolve_token_def split: sum.splits)
    from find_or_create_user_found u ur obtain usr where usr: "usr \<in> set (users (db wb))"
      "u_phone_number usr = np" "u_id usr = uid" by blast
    from find_or_create_recipient_step[OF f] usr(1) have "usr \<in> set (users (db w1))"
      by (auto simp: resolve_step_def)
    moreover from find_or_create_recipient_found[OF f] have "(cid, uid, tok) \<in> token_rows w1" .
    ultimately show ?thesis using Some l usr unfolding link_matches_iff by auto
  qed
qed


lemma resolve_token_pipe:
  assumes "resolve_token e req hl np w = (Inr tok, w1)" and "pipe_free w"
  shows "CHR ''|'' \<notin> set tok"
proof (cases "campaign_of req")
  case None
  with assms(1) show ?thesis
    by (auto simp: resolve_token_def random_token_def base36_char_not_pipe[THEN not_sym]
             split: if_splits)
next
  case (Some cid)
  obtain cd wa where c: "select_campaign_short_id e cid w = (cd, wa)" by force
  obtain ur wb where u: "find_or_create_user e np wa = (ur, wb)" by force
  from assms Some c u obtain uid where
    f: "find_or_create_recipient e cid uid wb = (Inr tok, w1)"
    by (auto simp: resolve_token_def split: sum.splits)
  from resolve_token_step[OF assms(1)] assms(2) have "pipe_free w1"
    by (simp add: resolve_step_def)
  moreover from find_or_create_recipient_found[OF f] have "(cid, uid, tok) \<in> token_rows w1" .
  ultimately show ?thesis
    unfolding pipe_free_def token_rows_def list_all_iff by auto
qed

lemma res_step_refl: "res_step r r"
  by (simp add: res_step_def)

lemma res_step_trans: "res_step a b \<Longrightarrow> res_step b c \<Longrightarrow> res_step a c"
  unfolding res_step_def by (auto intro: prefix_order.trans)

lemma process_recipient_facts:
  assumes "process_recipient e req hl phone (rs, ls, res, w) = (rs', ls', res', w')"
  shows "rs' = rs @ [normalizePhoneNumber e phone]"
    and "\<exists>l. ls' = ls @ [l] \<and> link_matches e req w' (normalizePhoneNumber e phone) l \<and>
             (pipe_free w \<longrightarrow> CHR ''|'' \<notin> set (location_origin e) \<longrightarrow> CHR ''|'' \<notin> set l)"
    and "resolve_step w w'"
    and "res_step res res'"
    and "r_sentCount res' = r_sentCount res"
proof -
  let ?np = "normalizePhoneNumber e phone"
  obtain r w1 where r: "resolve_token e req hl ?np w = (r, w1)" by force
  have st: "resolve_step w w1" by (rule resolve_token_step[OF r])
  show "rs' = rs @ [?np]"
    using assms r by (cases r) (simp_all add: process_recipient_def Let_def)
  show "resolve_step w w'"
    using assms r st by (cases r) (simp_all add: process_recipient_def Let_def)
  show "res_step res res'"
    using assms r by (cases r) (auto simp: process_recipient_def Let_def res_step_def)
  show "r_sentCount res' = r_sentCount res"
    using assms r by (cases r) (auto simp: process_recipient_def Let_def)
  show "\<exists>l. ls' = ls @ [l] \<and> link_matches e req w' ?np l \<and>
             (pipe_free w \<longrightarrow> CHR ''|'' \<notin> set (location_origin e) \<longrightarrow> CHR ''|'' \<notin> set l)"
  proof (cases r)
    case (Inl err)
    with assms r have "ls' = ls @ [[]]" by (simp add: process_recipient_def Let_def)
    then show ?thesis by (simp add: link_matches_def)
  next
    case (Inr tok)
    with assms r have l: "ls' = ls @ [link_of e hl tok]" and w: "w' = w1"
      by (simp_all add: process_recipient_def Let_def)
    from r Inr have "link_matches e req w1 ?np (link_of e hl tok)"
      by (simp add: resolve_token_link)
    moreover have "pipe_free w \<Longrightarrow> CHR ''|'' \<notin> set (location_origin e)
                   \<Longrightarrow> CHR ''|'' \<notin> set (link_of e hl tok)"
      using resolve_token_pipe[of e req hl ?np w tok w1] r Inr by (simp add: link_of_def)
    ultimately show ?thesis using l w by blast
  qed
qed

lemma fold_process_recipient:
  assumes "fold (process_recipient e req hl) batch (rs, ls, res, w) = (rs', ls', res', w')"
  shows "rs' = rs @ map (normalizePhoneNumber e) batch \<and>
         (\<exists>ls2. ls' = ls @ ls2 \<and>
                 list_all2 (link_matches e req w') (map (normalizePhoneNumber e) batch) ls2 \<and>
                 (pipe_free w \<longrightarrow> CHR ''|'' \<notin> set (location_origin e)
                    \<longrightarrow> list_all (\<lambda>l. CHR ''|'' \<notin> set l) ls2)) \<and>
         resolve_step w w' \<and> res_step res res' \<and> r_sentCount res' = r_sentCount res"
  using assms
proof (induction batch arbitrary: rs ls res w)
  case Nil
  then show ?case by (simp add: resolve_step_refl res_step_refl)
next
  case (Cons phone batch)
  obtain rs1 ls1 res1 w1 where
    p: "process_recipient e req hl phone (rs, ls, res, w) = (rs1, ls1, res1, w1)"
    by (metis prod_cases4)
  from Cons.prems p have
    f: "fold (process_recipient e req hl) batch (rs1, ls1, res1, w1) = (rs', ls', res', w')"
    by simp
  note a = process_recipient_facts[OF p]
  from a(2) obtain l where l: "ls1 = ls @ [l]"
    "link_matches e req w1 (normalizePhoneNumber e phone) l"
    "pipe_free w \<longrightarrow> CHR ''|'' \<notin> set (location_origin e) \<longrightarrow> CHR ''|'' \<notin> set l" by blast
  from Cons.IH[OF f] obtain ls2 where b:
    "rs' = rs1 @ map (normalizePhoneNumber e) batch" "ls' = ls1 @ ls2"
    "list_all2 (link_matches e req w') (map (normalizePhoneNumber e) batch) ls2"
    "pipe_free w1 \<longrightarrow> CHR ''|'' \<notin> set (location_origin e) \<longrightarrow> list_all (\<lambda>l. CHR ''|'' \<notin> set l) ls2"
    "resolve_step w1 w'" "res_step res1 res'" "r_sentCount res' = r_sentCount res1" by blast
  have "link_matches e req w' (normalizePhoneNumber e phone) l"
    using l(2) b(5) by (blast intro: link_matches_grows resolve_step_grows)
  with b(3) have "list_all2 (link_matches e req w') (map (normalizePhoneNumber e) (phone # batch)) (l # ls2)"
    by simp
  moreover have "pipe_free w \<longrightarrow> CHR ''|'' \<notin> set (location_origin e)
                 \<longrightarrow> list_all (\<lambda>l. CHR ''|'' \<notin> set l) (l # ls2)"
    using l(3) b(4) a(3) by (simp add: resolve_step_def)
  moreover have "ls' = ls @ (l # ls2)" using l(1) b(2) by simp
  moreover have "rs' = rs @ map (normalizePhoneNumber e) (phone # batch)" using a(1) b(1) by simp
  moreover have "resolve_step w w'" using a(3) b(5) by (rule resolve_step_trans)
  moreover have "res_step res res'" using a(4) b(6) by (rule res_step_trans)
  moreover have "r_sentCount res' = r_sentCount res" using a(5) b(7) by simp
  ultimately show ?case by blast
qed


lemma str_split_nonempty: "str_split sep s \<noteq> []"
  by (induction s) (auto split: list.splits)

lemma str_split_no_sep: "sep \<notin> set x \<Longrightarrow> str_split sep x = [x]"
  by (induction x) auto

lemma str_split_append_sep:
  "sep \<notin> set x \<Longrightarrow> str_split sep (x @ sep # rest) = x # str_split sep rest"
  by (induction x) auto

lemma str_split_join:
  "xs \<noteq> [] \<Longrightarrow> list_all (\<lambda>x. sep \<notin> set x) xs \<Longrightarrow> str_split sep (str_join [sep] xs) = xs"
proof (induction "[sep]" xs rule: str_join.induct)
  case 1
  then show ?case by simp
next
  case (2 x)
  then show ?case by (simp add: str_split_no_sep)
next
  case (3 x y ys)
  then show ?case by (simp add: str_split_append_sep)
qed

lemma call_personalized_grows:
  "grows w w' \<Longrightarrow> call_personalized e req w c \<Longrightarrow> call_personalized e req w' c"
  unfolding call_personalized_def
  by (auto split: option.splits elim!: list_all2_mono intro: link_matches_grows)

lemma replies_Cons:
  "replies e n (b # bs) = functions_invoke e n b # replies e (Suc n) bs"
  by (simp add: replies_def)

lemma replies_Nil: "replies e n [] = []"
  by (simp add: replies_def)

lemma record_reply_facts:
  "res_step res (record_reply j reply res)"
  "r_sentCount (record_reply j reply res) = r_sentCount res + reply_sent reply"
  by (cases reply; simp add: record_reply_def res_step_def reply_sent_def)+

lemma setProgress_facts:
  "invocations (setProgress p w) = invocations w"
  "progress_log (setProgress p w) = progress_log w @ [p]"
  "sending_log (setProgress p w) = sending_log w"
  "db (setProgress p w) = db w"
  "random_draws (setProgress p w) = random_draws w"
  "db_requests (setProgress p w) = db_requests w"
  by (simp_all add: setProgress_def)

lemma send_batch_facts:
  assumes "send_batch e req hl batches j (res, w) = (res', w')"
  shows "\<exists>body. invocations w' = invocations w @ [body] \<and>
           body_recipients body = map (normalizePhoneNumber e) (batches ! j) \<and>
           r_sentCount res' = r_sentCount res +
             reply_sent (functions_invoke e (length (invocations w)) body) \<and>
           (hl \<longrightarrow> pipe_free w \<longrightarrow> CHR ''|'' \<notin> set (location_origin e) \<longrightarrow> batches ! j \<noteq> []
              \<longrightarrow> call_personalized e req w' body)"
    and "progress_log w' = progress_log w @ [progressPercent j (length batches)]"
    and "sending_log w' = sending_log w"
    and "bulk_messages (db w') = bulk_messages (db w)"
    and "grows w w'"
    and "res_step res res'"
proof -
  obtain rs ls res1 w1 where
    f: "fold (process_recipient e req hl) (batches ! j) ([], [], res, w) = (rs, ls, res1, w1)"
    by (metis prod_cases4)
  from fold_process_recipient[OF f] have rs: "rs = map (normalizePhoneNumber e) (batches ! j)"
    and lm: "list_all2 (link_matches e req w1) (map (normalizePhoneNumber e) (batches ! j)) ls"
    and pf: "pipe_free w \<longrightarrow> CHR ''|'' \<notin> set (location_origin e)
               \<longrightarrow> list_all (\<lambda>l. CHR ''|'' \<notin> set l) ls"
    and st: "resolve_step w w1" and rst: "res_step res res1"
    and sc: "r_sentCount res1 = r_sentCount res"
    by auto
  define body where "body = batch_body e req hl rs ls"
  define w2 where "w2 = w1\<lparr>invocations := invocations w1 @ [body]\<rparr>"
  from assms f have res': "res' = record_reply j (functions_invoke e (length (invocations w1)) body) res1"
    and w': "w' = setProgress (progressPercent j (length batches)) w2"
    by (simp_all add: send_batch_def Let_def body_def w2_def)
  have inv1: "invocations w1 = invocations w" using st by (simp add: resolve_step_def)
  have dbw': "db w' = db w1" "random_draws w' = random_draws w1"
    by (simp_all add: w' w2_def setProgress_facts)
  have g1: "grows w1 w'"
    by (simp add: grows_def dbw' token_rows_def pipe_free_def)
  show "progress_log w' = progress_log w @ [progressPercent j (length batches)]"
    using st by (simp add: w' w2_def setProgress_facts resolve_step_def)
  show "sending_log w' = sending_log w"
    using st by (simp add: w' w2_def setProgress_facts resolve_step_def)
  show "bulk_messages (db w') = bulk_messages (db w)"
    using st by (simp add: dbw' resolve_step_def)
  show "grows w w'"
    using resolve_step_grows[OF st] g1 by (rule grows_trans)
  show "res_step res res'"
    using rst record_reply_facts(1) unfolding res' by (rule res_step_trans)
  have "invocations w' = invocations w @ [body]"
    by (simp add: w' w2_def setProgress_facts inv1)
  moreover have br: "body_recipients body = map (normalizePhoneNumber e) (batches ! j)"
    by (simp add: body_def batch_body_def rs)
  moreover have "r_sentCount res' = r_sentCount res +
             reply_sent (functions_invoke e (length (invocations w)) body)"
    by (simp add: res' record_reply_facts(2) sc inv1)
  moreover have "call_personalized e req w' body"
    if "hl" "pipe_free w" "CHR ''|'' \<notin> set (location_origin e)" "batches ! j \<noteq> []"
  proof -
    from that pf have "list_all (\<lambda>l. CHR ''|'' \<notin> set l) ls" by simp
    moreover from lm that(4) have "ls \<noteq> []" by auto
    ultimately have "str_split CHR ''|'' (str_join ''|'' ls) = ls" by (rule str_split_join[rotated])
    moreover have "body_param1 body = Some (str_join ''|'' ls)"
      using that(1) by (simp add: body_def batch_body_def)
    moreover have "list_all2 (link_matches e req w') (body_recipients body) ls"
      using lm g1 unfolding br by (auto elim!: list_all2_mono intro: link_matches_grows)
    ultimately show ?thesis by (simp add: call_personalized_def)
  qed
  ultimately show "\<exists>body. invocations w' = invocations w @ [body] \<and>
           body_recipients body = map (normalizePhoneNumber e) (batches ! j) \<and>
           r_sentCount res' = r_sentCount res +
             reply_sent (functions_invoke e (length (invocations w)) body) \<and>
           (hl \<longrightarrow> pipe_free w \<longrightarrow> CHR ''|'' \<notin> set (location_origin e) \<longrightarrow> batches ! j \<noteq> []
              \<longrightarrow> call_personalized e req w' body)"
    by blast
qed


lemma fold_send_batch:
  assumes "fold (send_batch e req hl batches) js (res, w) = (res', w')"
  shows "(\<exists>bodies. invocations w' = invocations w @ bodies \<and>
           map body_recipients bodies = map (\<lambda>j. map (normalizePhoneNumber e) (batches ! j)) js \<and>
           r_sentCount res' = r_sentCount res +
             sum_list (map reply_sent (replies e (length (invocations w)) bodies)) \<and>
           (hl \<longrightarrow> pipe_free w \<longrightarrow> CHR ''|'' \<notin> set (location_origin e)
              \<longrightarrow> list_all (\<lambda>j. batches ! j \<noteq> []) js
              \<longrightarrow> list_all (call_personalized e req w') bodies)) \<and>
         progress_log w' = progress_log w @ map (\<lambda>j. progressPercent j (length batches)) js \<and>
         sending_log w' = sending_log w \<and>
         bulk_messages (db w') = bulk_messages (db w) \<and>
         grows w w' \<and> res_step res res'"
  using assms
proof (induction js arbitrary: res w)
  case Nil
  then have "res' = res" "w' = w" by simp_all
  then show ?case by (simp add: replies_Nil grows_refl res_step_refl)
next
  case (Cons j js)
  obtain res1 w1 where s: "send_batch e req hl batches j (res, w) = (res1, w1)" by force
  with Cons.prems have f: "fold (send_batch e req hl batches) js (res1, w1) = (res', w')"
    by simp
  note a = send_batch_facts[OF s]
  from a(1) obtain body where body:
    "invocations w1 = invocations w @ [body]"
    "body_recipients body = map (normalizePhoneNumber e) (batches ! j)"
    "r_sentCount res1 = r_sentCount res + reply_sent (functions_invoke e (length (invocations w)) body)"
    "hl \<longrightarrow> pipe_free w \<longrightarrow> CHR ''|'' \<notin> set (location_origin e) \<longrightarrow> batches ! j \<noteq> []
       \<longrightarrow> call_personalized e req w1 body"
    by blast
  from Cons.IH[OF f] obtain bodies where b:
    "invocations w' = invocations w1 @ bodies"
    "map body_recipients bodies = map (\<lambda>j. map (normalizePhoneNumber e) (batches ! j)) js"
    "r_sentCount res' = r_sentCount res1 +
       sum_list (map reply_sent (replies e (length (invocations w1)) bodies))"
    "hl \<longrightarrow> pipe_free w1 \<longrightarrow> CHR ''|'' \<notin> set (location_origin e)
       \<longrightarrow> list_all (\<lambda>j. batches ! j \<noteq> []) js
       \<longrightarrow> list_all (call_personalized e req w') bodies"
    and c: "progress_log w' = progress_log w1 @ map (\<lambda>j. progressPercent j (length batches)) js"
    "sending_log w' = sending_log w1" "bulk_messages (db w') = bulk_messages (db w1)"
    "grows w1 w'" "res_step res1 res'"
    by blast
  have "invocations w' = invocations w @ (body # bodies)" using body(1) b(1) by simp
  moreover have "map body_recipients (body # bodies)
      = map (\<lambda>j. map (normalizePhoneNumber e) (batches ! j)) (j # js)"
    using body(2) b(2) by simp
  moreover have "r_sentCount res' = r_sentCount res +
      sum_list (map reply_sent (replies e (length (invocations w)) (body # bodies)))"
    using body(1,3) b(3) by (simp add: replies_Cons)
  moreover have "list_all (call_personalized e req w') (body # bodies)"
    if "hl" "pipe_free w" "CHR ''|'' \<notin> set (location_origin e)"
       "list_all (\<lambda>j. batches ! j \<noteq> []) (j # js)"
  proof -
    from that body(4) have "call_personalized e req w1 body" by simp
    with c(4) have "call_personalized e req w' body" by (rule call_personalized_grows)
    moreover from a(5) that(2) have "pipe_free w1" by (simp add: grows_def)
    with that b(4) have "list_all (call_personalized e req w') bodies" by simp
    ultimately show ?thesis by simp
  qed
  moreover have "progress_log w' = progress_log w @ map (\<lambda>j. progressPercent j (length batches)) (j # js)"
    using a(2) c(1) by simp
  moreover have "sending_log w' = sending_log w" using a(3) c(2) by simp
  moreover have "bulk_messages (db w') = bulk_messages (db w)" using a(4) c(3) by simp
  moreover have "grows w w'" using a(5) c(4) by (rule grows_trans)
  moreover have "res_step res res'" using a(6) c(5) by (rule res_step_trans)
  ultimately show ?case by blast
qed


section \<open>The personalized branch and \<open>sendSMS\<close>\<close>

lemma logSMSCampaign_facts:
  "invocations (logSMSCampaign e ty c n sc st cid w) = invocations w"
  "progress_log (logSMSCampaign e ty c n sc st cid w) = progress_log w"
  "sending_log (logSMSCampaign e ty c n sc st cid w) = sending_log w"
  "users (db (logSMSCampaign e ty c n sc st cid w)) = users (db w)"
  "campaign_recipients (db (logSMSCampaign e ty c n sc st cid w)) = campaign_recipients (db w)"
  "random_draws (logSMSCampaign e ty c n sc st cid w) = random_draws w"
  by (simp_all add: logSMSCampaign_def insert_bulk_message_def db_request_def split: option.splits)

lemma logSMSCampaign_grows: "grows w (logSMSCampaign e ty c n sc st cid w)"
  by (simp add: grows_def token_rows_def pipe_free_def logSMSCampaign_facts)

lemma setProgress_grows: "grows w (setProgress p w)"
  by (simp add: grows_def token_rows_def pipe_free_def setProgress_facts)

lemma determine_success_facts:
  "r_sentCount (determine_success res) = r_sentCount res"
  "r_errors (determine_success res) = r_errors res"
  "r_success res \<Longrightarrow> r_success (determine_success res) = (r_sentCount res \<noteq> 0)"
  "r_error res = None \<Longrightarrow> r_error (determine_success res) =
     (if r_sentCount res = 0
      then Some (case r_errors res of [] \<Rightarrow> ''No messages were sent successfully'' | e # _ \<Rightarrow> e)
      else None)"
  by (simp_all add: determine_success_def)

lemma personalized_send_facts:
  assumes "personalized_send e req valid w = (res, w')"
  shows "(\<exists>bodies. invocations w' = invocations w @ bodies \<and>
           map body_recipients bodies = map (map (normalizePhoneNumber e)) (make_batches 0 valid) \<and>
           r_sentCount res = sum_list (map reply_sent (replies e (length (invocations w)) bodies)) \<and>
           (hasLinkPlaceholder req \<longrightarrow> pipe_free w \<longrightarrow> CHR ''|'' \<notin> set (location_origin e)
              \<longrightarrow> list_all (call_personalized e req w') bodies))"
    and "progress_log w' = progress_log w @
           map (\<lambda>j. progressPercent j (length (make_batches 0 valid)))
             [0..<length (make_batches 0 valid)] @ [100]"
    and "sending_log w' = sending_log w"
    and "grows w w'"
    and "r_success res = (r_sentCount res \<noteq> 0)"
    and "r_error res =
           (if r_sentCount res = 0
            then Some (case r_errors res of [] \<Rightarrow> ''No messages were sent successfully'' | e # _ \<Rightarrow> e)
            else None)"
proof -
  let ?batches = "make_batches 0 valid"
  let ?n = "length ?batches"
  obtain res0 w1 where
    f: "fold (send_batch e req (hasLinkPlaceholder req) ?batches) [0..<?n]
          (initial_results (length valid), w) = (res0, w1)" by force
  define w2 where "w2 = setProgress 100 w1"
  from assms f have res: "res = determine_success res0"
    by (simp add: personalized_send_def Let_def)
  from assms f have "w' = (if r_success (determine_success res0) \<and> r_sentCount (determine_success res0) > 0
                   then logSMSCampaign e ''sms'' (message req) (length valid)
                          (r_sentCount (determine_success res0)) ''completed'' (campaignId req) w2
                   else w2)"
    by (auto simp: personalized_send_def Let_def w2_def)
  then have w': "w' = (if r_success res \<and> r_sentCount res > 0
                   then logSMSCampaign e ''sms'' (message req) (length valid)
                          (r_sentCount res) ''completed'' (campaignId req) w2
                   else w2)"
    unfolding res .
  have inv: "invocations w' = invocations w1" "progress_log w' = progress_log w1 @ [100]"
    "sending_log w' = sending_log w1"
    by (simp_all add: w' w2_def logSMSCampaign_facts setProgress_facts)
  have g: "grows w1 w'"
    unfolding w' w2_def
    by (auto intro: grows_trans[OF setProgress_grows logSMSCampaign_grows] setProgress_grows)
  from fold_send_batch[OF f] obtain bodies where b:
    "invocations w1 = invocations w @ bodies"
    "map body_recipients bodies = map (\<lambda>j. map (normalizePhoneNumber e) (?batches ! j)) [0..<?n]"
    "r_sentCount res0 = r_sentCount (initial_results (length valid)) +
       sum_list (map reply_sent (replies e (length (invocations w)) bodies))"
    "hasLinkPlaceholder req \<longrightarrow> pipe_free w \<longrightarrow> CHR ''|'' \<notin> set (location_origin e)
       \<longrightarrow> list_all (\<lambda>j. ?batches ! j \<noteq> []) [0..<?n]
       \<longrightarrow> list_all (call_personalized e req w1) bodies"
    and c: "progress_log w1 = progress_log w @ map (\<lambda>j. progressPercent j ?n) [0..<?n]"
    "sending_log w1 = sending_log w" "grows w w1"
    "res_step (initial_results (length valid)) res0"
    by blast
  have ne: "list_all (\<lambda>j. ?batches ! j \<noteq> []) [0..<?n]"
    unfolding list_all_iff using make_batches_sizes[of _ 0 valid] by (auto simp: nth_mem)
  have "map (\<lambda>j. map (normalizePhoneNumber e) (?batches ! j)) [0..<?n]
        = map (map (normalizePhoneNumber e)) ?batches"
    by (rule nth_equalityI) simp_all
  with b(2) have recips: "map body_recipients bodies = map (map (normalizePhoneNumber e)) ?batches"
    by simp
  have sc: "r_sentCount res = sum_list (map reply_sent (replies e (length (invocations w)) bodies))"
    using b(3) by (simp add: res determine_success_facts initial_results_def)
  have cp: "list_all (call_personalized e req w') bodies"
    if "hasLinkPlaceholder req" "pipe_free w" "CHR ''|'' \<notin> set (location_origin e)"
  proof -
    from that b(4) ne have "list_all (call_personalized e req w1) bodies" by simp
    then show ?thesis
      unfolding list_all_iff using g by (blast intro: call_personalized_grows)
  qed
  show "\<exists>bodies. invocations w' = invocations w @ bodies \<and>
           map body_recipients bodies = map (map (normalizePhoneNumber e)) ?batches \<and>
           r_sentCount res = sum_list (map reply_sent (replies e (length (invocations w)) bodies)) \<and>
           (hasLinkPlaceholder req \<longrightarrow> pipe_free w \<longrightarrow> CHR ''|'' \<notin> set (location_origin e)
              \<longrightarrow> list_all (call_personalized e req w') bodies)"
  proof (intro exI conjI impI)
    show "invocations w' = invocations w @ bodies" using inv(1) b(1) by simp
  qed (use recips sc cp in simp_all)
  show "progress_log w' = progress_log w @ map (\<lambda>j. progressPercent j ?n) [0..<?n] @ [100]"
    using inv(2) c(1) by simp
  show "sending_log w' = sending_log w" using inv(3) c(2) by simp
  show "grows w w'" using c(3) g by (rule grows_trans)
  from c(4) have s0: "r_success res0" "r_error res0 = None"
    by (simp_all add: res_step_def initial_results_def)
  show "r_success res = (r_sentCount res \<noteq> 0)"
    using s0(1) by (simp add: res determine_success_facts)
  show "r_error res =
           (if r_sentCount res = 0
            then Some (case r_errors res of [] \<Rightarrow> ''No messages were sent successfully'' | e # _ \<Rightarrow> e)
            else None)"
    using s0(2) by (simp add: res determine_success_facts)
qed

lemma validRecipients_link_request: "validRecipients (link_request msg n) = replicate n ''+359888123456''"
proof -
  have v: "valid_phone (Some ''+359888123456'')"
    by (simp add: valid_phone_def trim_def isWhiteSpace_def)
  have "concat (map (\<lambda>p. case p of None \<Rightarrow> [] | Some phone \<Rightarrow> [phone])
          (replicate k (Some ''+359888123456''))) = replicate k ''+359888123456''" for k
    by (induction k) simp_all
  with v show ?thesis by (simp add: validRecipients_def link_request_def)
qed

lemma setSending_facts:
  "invocations (setSending b w) = invocations w"
  "progress_log (setSending b w) = progress_log w"
  "sending_log (setSending b w) = sending_log w @ [b]"
  "db (setSending b w) = db w"
  "random_draws (setSending b w) = random_draws w"
  "db_requests (setSending b w) = db_requests w"
  by (simp_all add: setSending_def)


lemma validRecipients_nonempty:
  "validRecipients req \<noteq> [] \<Longrightarrow> \<not> (case recipients req of None \<Rightarrow> True | Some ps \<Rightarrow> ps = [])"
  by (auto simp: validRecipients_def split: option.splits)


lemma sendSMS_personalized:
  assumes "validRecipients req \<noteq> []" and "campaign_of req \<noteq> None \<or> hasLinkPlaceholder req"
    and "personalized_send e req (validRecipients req) (setProgress 0 (setSending True w)) = (res, w1)"
  shows "sendSMS e req w = (results_response res, setSending False w1)"
  using assms validRecipients_nonempty[OF assms(1)]
  by (auto simp: sendSMS_def sendSMS_try_def)

subsection \<open>The links of a personalized send, recipient by recipient\<close>

text \<open>
  Resolving a recipient reads and writes the database, the count of its requests and the
  count of random draws, and nothing else of the world.
\<close>

lemma db_request_frame:
  "db_request e (w\<lparr>invocations := i, progress_log := p, sending_log := s\<rparr>) =
     (case db_request e w of (r, w1) \<Rightarrow> (r, w1\<lparr>invocations := i, progress_log := p, sending_log := s\<rparr>))"
  by (simp add: db_request_def)



































text \<open>
  A send to three recipients without a campaign, the three draws giving different tokens:
  one invocation, each recipient with the link of the draw made for that recipient.
\<close>

lemma personalized_links_example:
  "map body_param1
     (invocations (snd (sendSMS (example_env\<lparr>random_digits := (\<lambda>n. [10, 11, n])\<rparr>)
                          (link_request ''Visit {{ link }}'' 3) empty_world)))
     = [Some ''https://app.example/AB0|https://app.example/AB1|https://app.example/AB2'']"
  by code_simp


section \<open>Overall success\<close>

lemma personalized_response:
  assumes "validRecipients req \<noteq> []" and "campaign_of req \<noteq> None \<or> hasLinkPlaceholder req"
    and "sendSMS e req w = (response, w')"
  shows "\<exists>res w1. personalized_send e req (validRecipients req) (setProgress 0 (setSending True w))
                     = (res, w1) \<and>
                  response = results_response res \<and> w' = setSending False w1"
proof -
  obtain res w1 where p: "personalized_send e req (validRecipients req)
      (setProgress 0 (setSending True w)) = (res, w1)" by force
  from sendSMS_personalized[OF assms(1,2) p] assms(3) p show ?thesis by simp
qed

text \<open>
  C2, amended. A send that takes the personalized branch (at least one valid recipient,
  and a campaign or the placeholder \<open>{{ link }}\<close>): \<open>sentCount\<close> is the sum of what the
  successful answers of the edge function report; \<open>success\<close> is false exactly when that sum
  is 0, and then \<open>error\<close> is the first entry of \<open>errors\<close>, or the generic message when there
  is none; otherwise \<open>success\<close> is true and \<open>error\<close> is not set, whatever \<open>errors\<close> and
  \<open>invalidNumbers\<close> hold.
\<close>

theorem personalized_success_iff_sent:
  assumes "validRecipients req \<noteq> []" and "campaign_of req \<noteq> None \<or> hasLinkPlaceholder req"
    and "sendSMS e req w = (response, w')"
  shows "\<exists>calls. invocations w' = invocations w @ calls \<and>
           sentCount response
             = Some (sum_list (map reply_sent (replies e (length (invocations w)) calls))) \<and>
           success response = (sentCount response \<noteq> Some 0) \<and>
           error response =
             (if sentCount response = Some 0
              then Some (case errors response of
                           Some (er # _) \<Rightarrow> er
                         | _ \<Rightarrow> ''No messages were sent successfully'')
              else None)"
proof -
  let ?w0 = "setProgress 0 (setSending True w)"
  from personalized_response[OF assms] obtain res w1 where
    p: "personalized_send e req (validRecipients req) ?w0 = (res, w1)"
    and r: "response = results_response res" and w': "w' = setSending False w1" by blast
  from personalized_send_facts(1)[OF p] obtain calls where
    c: "invocations w1 = invocations ?w0 @ calls"
    "r_sentCount res = sum_list (map reply_sent (replies e (length (invocations ?w0)) calls))"
    by blast
  note s = personalized_send_facts(5,6)[OF p]
  have "invocations w' = invocations w @ calls"
    using c(1) by (simp add: w' setSending_facts setProgress_facts)
  moreover have "sentCount response
      = Some (sum_list (map reply_sent (replies e (length (invocations w)) calls)))"
    using c(2) by (simp add: r results_response_def setSending_facts setProgress_facts)
  moreover have "success response = (sentCount response \<noteq> Some 0)"
    using s(1) by (simp add: r results_response_def)
  moreover have "error response =
             (if sentCount response = Some 0
              then Some (case errors response of
                           Some (er # _) \<Rightarrow> er
                         | _ \<Rightarrow> ''No messages were sent successfully'')
              else None)"
    using s(2) by (cases "r_errors res") (simp_all add: r results_response_def)
  ultimately show ?thesis by blast
qed

theorem personalized_success_iff_sent_witness:
  "validRecipients (link_request ''Visit {{ link }}'' 101) \<noteq> [] \<and>
   hasLinkPlaceholder (link_request ''Visit {{ link }}'' 101) \<and>
   (\<exists>calls. invocations (snd (sendSMS example_env (link_request ''Visit {{ link }}'' 101) empty_world))
              = invocations empty_world @ calls \<and>
      sentCount (fst (sendSMS example_env (link_request ''Visit {{ link }}'' 101) empty_world))
        = Some (sum_list (map reply_sent
                   (replies example_env (length (invocations empty_world)) calls))))"
proof -
  let ?req = "link_request ''Visit {{ link }}'' 101"
  have h1: "validRecipients ?req \<noteq> []"
    by (simp add: validRecipients_link_request)
  have h2: "hasLinkPlaceholder ?req"
    by (simp add: hasLinkPlaceholder_def link_request_def)
  from personalized_success_iff_sent[OF h1 disjI2[OF h2] surjective_pairing] h1 h2
  show ?thesis by blast
qed

text \<open>
  The edge function answers \<open>success: true\<close> with \<open>sentCount: 0\<close> when the provider reports
  no error and a count of 0.
\<close>

lemma edge_answer_zero_count:
  "json (fst (edge_handler
                (example_edge_env\<lparr>fetch_reply := (\<lambda>r. Parsed
                    \<lparr>api_count = Some 0, api_list = Some [], api_invalid_numbers = None,
                     api_error = None, api_message = None\<rparr>)\<rparr>)
                (POST \<lparr>er_recipients = Some [''+359888123456''], er_message = Some ''Hello'',
                        er_sender = None, er_test = None, er_campaignId = None\<rparr>)
                edge_world0))
     = Some \<lparr>success = True, sentCount = Some 0, totalRecipients = Some 1,
              messageIds = Some [], cost = Some 0, currency = Some ''EUR'', error = None,
              errorCode = None, invalidNumbers = Some [], errors = None\<rparr>"
  by code_simp

text \<open>
  C2 as stated fails for a plain send (no campaign, no placeholder): when the invocation
  returns data, \<open>sendSMS\<close> returns that answer of the edge function as it is, and the
  answer has \<open>success = true\<close> with \<open>sentCount = 0\<close> when the provider reports no error and
  a count of 0.
\<close>

theorem plain_send_success_with_zero_sent:
  "success (fst (sendSMS zero_count_env plain_request empty_world)) \<and>
   sentCount (fst (sendSMS zero_count_env plain_request empty_world)) = Some 0"
  by code_simp


section \<open>Progress\<close>

lemma binade_bounds:
  assumes "0 < x"
  shows "2 powi binade x \<le> x" and "x < 2 powi (binade x + 1)"
proof -
  have "2 powi binade x \<le> x \<and> x < 2 powi (binade x + 1)"
  proof (cases "1 \<le> x")
    case True
    then have f: "0 < \<lfloor>x\<rfloor>" by simp
    let ?b = "bitlen \<lfloor>x\<rfloor>"
    from bitlen_bounds[OF f] have b1: "2 ^ nat (?b - 1) \<le> \<lfloor>x\<rfloor>" and b2: "\<lfloor>x\<rfloor> < 2 ^ nat ?b"
      by simp_all
    from f have bpos: "1 \<le> ?b" by (simp add: bitlen_alt_def)
    have "rat_of_int (2 ^ nat (?b - 1)) \<le> rat_of_int \<lfloor>x\<rfloor>" using b1 by (simp only: of_int_le_iff)
    also have "\<dots> \<le> x" by simp
    finally have l: "(2::rat) ^ nat (?b - 1) \<le> x" by simp
    from b2 have "\<lfloor>x\<rfloor> + 1 \<le> 2 ^ nat ?b" by simp
    then have "rat_of_int (\<lfloor>x\<rfloor> + 1) \<le> rat_of_int (2 ^ nat ?b)" by (simp only: of_int_le_iff)
    moreover have "x < rat_of_int (\<lfloor>x\<rfloor> + 1)" by linarith
    ultimately have "x < rat_of_int (2 ^ nat ?b)" by (rule less_le_trans[rotated])
    then have u: "x < (2::rat) ^ nat ?b" by simp
    from bpos have "(2::rat) powi (?b - 1) = 2 ^ nat (?b - 1)" "(2::rat) powi ?b = 2 ^ nat ?b"
      by (simp_all add: power_int_def)
    with l u True show ?thesis by (simp add: binade_def)
  next
    case False
    with assms have x1: "x < 1" by simp
    define m where "m = \<lceil>1 / x\<rceil> - 1"
    define b where "b = bitlen m"
    from x1 assms have "1 < 1 / x" by simp
    then have m: "0 < m" unfolding m_def by linarith
    from bitlen_bounds[OF m] have b1: "2 ^ nat (b - 1) \<le> m" and b2: "m < 2 ^ nat b"
      by (simp_all add: b_def)
    from m have bpos: "1 \<le> b" by (simp add: bitlen_alt_def b_def)
    have mx: "rat_of_int m < 1 / x" unfolding m_def by linarith
    have xm: "1 / x \<le> rat_of_int (m + 1)" unfolding m_def by linarith
    have "rat_of_int (2 ^ nat (b - 1)) \<le> rat_of_int m" using b1 by (simp only: of_int_le_iff)
    then have "rat_of_int (2 ^ nat (b - 1)) < 1 / x" using mx by (rule le_less_trans)
    then have "(2::rat) ^ nat (b - 1) < 1 / x" by simp
    then have "x * 2 ^ nat (b - 1) < 1" using assms by (simp add: field_simps)
    then have u: "x < 1 / 2 ^ nat (b - 1)" by (simp add: field_simps)
    from b2 have "m + 1 \<le> 2 ^ nat b" by simp
    then have "rat_of_int (m + 1) \<le> rat_of_int (2 ^ nat b)" by (simp only: of_int_le_iff)
    with xm have "1 / x \<le> rat_of_int (2 ^ nat b)" by (rule order_trans)
    then have "1 / x \<le> (2::rat) ^ nat b" by simp
    then have "1 \<le> x * 2 ^ nat b" using assms by (simp add: field_simps)
    then have l: "1 / 2 ^ nat b \<le> x" by (simp add: field_simps)
    have p1: "(2::rat) powi (- b) = 1 / 2 ^ nat b"
      using bpos by (simp add: power_int_def field_simps)
    have p2: "(2::rat) powi (- b + 1) = 1 / 2 ^ nat (b - 1)"
    proof -
      have "- b + 1 = - (b - 1)" by simp
      then have "(2::rat) powi (- b + 1) = 2 powi (- (b - 1))" by simp
      also have "\<dots> = 1 / 2 powi (b - 1)" by (rule power_int_minus_divide)
      also have "\<dots> = 1 / 2 ^ nat (b - 1)" using bpos by (simp add: power_int_def)
      finally show ?thesis .
    qed
    have "binade x = - b" using False by (simp add: binade_def b_def m_def)
    with l u p1 p2 show ?thesis by simp
  qed
  then show "2 powi binade x \<le> x" and "x < 2 powi (binade x + 1)" by simp_all
qed

lemma binade_le:
  assumes "0 < x" and "x < 2 powi k"
  shows "binade x < k"
proof (rule ccontr)
  assume "\<not> binade x < k"
  then have "k \<le> binade x" by simp
  then have "(2::rat) powi k \<le> 2 powi binade x" by (rule power_int_increasing) simp
  with binade_bounds(1)[OF assms(1)] assms(2) show False by simp
qed

lemma binade_ge:
  assumes "2 powi k \<le> x"
  shows "k \<le> binade x"
proof (rule ccontr)
  assume "\<not> k \<le> binade x"
  then have "binade x + 1 \<le> k" by simp
  then have "(2::rat) powi (binade x + 1) \<le> 2 powi k" by (rule power_int_increasing) simp
  moreover have "(0::rat) < 2 powi k" by (rule zero_less_power_int) simp
  then have "0 < x" using assms by (rule less_le_trans)
  ultimately show False using binade_bounds(2)[of x] assms by simp
qed

lemma round_half_even_err: "\<bar>rat_of_int (round_half_even x) - x\<bar> \<le> 1 / 2"
proof -
  have "rat_of_int \<lfloor>x\<rfloor> \<le> x" "x < rat_of_int \<lfloor>x\<rfloor> + 1" by linarith+
  then show ?thesis by (auto simp add: round_half_even_def Let_def)
qed

lemma round_half_even_le:
  assumes "x \<le> rat_of_int N"
  shows "round_half_even x \<le> N"
proof (cases "x = rat_of_int N")
  case True
  then show ?thesis by (simp add: round_half_even_def)
next
  case False
  with assms have "x < rat_of_int N" by simp
  then have "\<lfloor>x\<rfloor> < N" by (simp add: floor_less_iff)
  then show ?thesis by (auto simp add: round_half_even_def Let_def)
qed

lemma round_half_even_nonneg:
  assumes "0 \<le> x"
  shows "0 \<le> round_half_even x"
proof -
  from assms have "0 \<le> \<lfloor>x\<rfloor>" by simp
  then show ?thesis by (auto simp add: round_half_even_def Let_def)
qed

lemma to_double_unfold:
  assumes "0 < x"
  shows "to_double x =
           rat_of_int (round_half_even (x / 2 powi (max (binade x) (- 1022) - 52))) *
           2 powi (max (binade x) (- 1022) - 52)"
  using assms by (simp add: to_double_def Let_def)

lemma to_double_nonneg:
  assumes "0 \<le> x"
  shows "0 \<le> to_double x"
proof (cases "x = 0")
  case True
  then show ?thesis by (simp add: to_double_def)
next
  case False
  with assms have x: "0 < x" by simp
  let ?u = "(2::rat) powi (max (binade x) (- 1022) - 52)"
  have u: "0 < ?u" by (rule zero_less_power_int) simp
  then have "0 \<le> x / ?u" using x by simp
  then have "0 \<le> round_half_even (x / ?u)" by (rule round_half_even_nonneg)
  then show ?thesis using u by (simp add: to_double_unfold[OF x])
qed

text \<open>The rounding error is at most half a unit in the last place.\<close>

lemma to_double_error:
  assumes "2 powi (- 1022) \<le> x"
  shows "\<bar>to_double x - x\<bar> \<le> x / 2 ^ 53"
proof -
  have "(0::rat) < 2 powi (- 1022)" by (rule zero_less_power_int) simp
  then have x: "0 < x" using assms by (rule less_le_trans)
  from binade_ge[OF assms] have m: "max (binade x) (- 1022) = binade x" by simp
  let ?u = "(2::rat) powi (binade x - 52)"
  have u: "0 < ?u" by (rule zero_less_power_int) simp
  have "\<bar>rat_of_int (round_half_even (x / ?u)) - x / ?u\<bar> \<le> 1 / 2"
    by (rule round_half_even_err)
  then have "\<bar>rat_of_int (round_half_even (x / ?u)) - x / ?u\<bar> * ?u \<le> 1 / 2 * ?u"
    using less_imp_le[OF u] by (rule mult_right_mono)
  moreover have "\<bar>rat_of_int (round_half_even (x / ?u)) - x / ?u\<bar> * ?u
                 = \<bar>rat_of_int (round_half_even (x / ?u)) * ?u - x\<bar>"
  proof -
    have "\<bar>rat_of_int (round_half_even (x / ?u)) - x / ?u\<bar> * ?u
          = \<bar>(rat_of_int (round_half_even (x / ?u)) - x / ?u) * ?u\<bar>"
      using u by (simp add: abs_mult)
    also have "(rat_of_int (round_half_even (x / ?u)) - x / ?u) * ?u
               = rat_of_int (round_half_even (x / ?u)) * ?u - x"
      using u by (simp add: algebra_simps)
    finally show ?thesis .
  qed
  ultimately have e: "\<bar>to_double x - x\<bar> \<le> 1 / 2 * ?u"
    by (simp add: to_double_unfold[OF x] m)
  have "?u = 2 powi binade x / 2 powi 52" by (rule power_int_diff) simp
  also have "\<dots> = 2 powi binade x / 2 ^ 52" by simp
  finally have "1 / 2 * ?u = 2 powi binade x / 2 ^ 53" by simp
  also have "\<dots> \<le> x / 2 ^ 53" using binade_bounds(1)[OF x] by (simp add: divide_right_mono)
  finally show ?thesis using e by simp
qed

text \<open>Rounding does not cross an integer below \<open>2 ^ 53\<close>.\<close>

lemma to_double_le_int:
  assumes "0 < x" and "x \<le> rat_of_int B" and "x < 2 powi 53"
  shows "to_double x \<le> rat_of_int B"
proof -
  let ?e = "max (binade x) (- 1022)"
  let ?u = "(2::rat) powi (?e - 52)"
  have u: "0 < ?u" by (rule zero_less_power_int) simp
  from binade_le[OF assms(1,3)] have e: "?e \<le> 52" by simp
  have inv: "1 / ?u = rat_of_int (2 ^ nat (52 - ?e))"
  proof -
    have "1 / ?u = 2 powi (- (?e - 52))" by (simp only: power_int_minus_divide)
    also have "- (?e - 52) = int (nat (52 - ?e))" using e by simp
    also have "(2::rat) powi int (nat (52 - ?e)) = 2 ^ nat (52 - ?e)" by (rule power_int_of_nat)
    finally show ?thesis by simp
  qed
  have "x / ?u \<le> rat_of_int B / ?u" using assms(2) u by (simp add: divide_right_mono)
  also have "rat_of_int B / ?u = rat_of_int B * (1 / ?u)" by simp
  also have "\<dots> = rat_of_int (B * 2 ^ nat (52 - ?e))" by (simp only: inv of_int_mult)
  finally have "round_half_even (x / ?u) \<le> B * 2 ^ nat (52 - ?e)" by (rule round_half_even_le)
  then have "rat_of_int (round_half_even (x / ?u)) \<le> rat_of_int (B * 2 ^ nat (52 - ?e))"
    by (simp only: of_int_le_iff)
  then have "rat_of_int (round_half_even (x / ?u)) * ?u \<le> rat_of_int (B * 2 ^ nat (52 - ?e)) * ?u"
    using less_imp_le[OF u] by (rule mult_right_mono)
  also have "rat_of_int (B * 2 ^ nat (52 - ?e)) * ?u = rat_of_int B * ((1 / ?u) * ?u)"
    by (simp only: inv of_int_mult mult.assoc)
  also have "\<dots> = rat_of_int B" using u by simp
  finally show ?thesis by (simp add: to_double_unfold[OF assms(1)])
qed


lemma progress_product:
  assumes "j < n" and "n < 2 ^ 32"
  defines "y \<equiv> double_mul (double_div (rat_of_nat (j + 1)) (rat_of_nat n)) 90"
  shows "0 \<le> y" and "y \<le> 90"
    and "\<bar>y - 90 * rat_of_nat (j + 1) / rat_of_nat n\<bar> \<le> 180 / 2 ^ 53"
proof -
  define q where "q = rat_of_nat (j + 1) / rat_of_nat n"
  define x where "x = to_double q"
  have n: "0 < rat_of_nat n" using assms(1) by simp
  have q1: "q \<le> 1" using assms(1) n by (simp add: q_def)
  have "1 \<le> rat_of_nat (j + 1)" by simp
  then have "1 / rat_of_nat n \<le> q" unfolding q_def using n by (simp add: divide_right_mono)
  moreover have "rat_of_nat n \<le> 2 ^ 32"
  proof -
    from assms(2) have "rat_of_nat n \<le> rat_of_nat (2 ^ 32)" by (simp only: of_nat_le_iff)
    then show ?thesis by simp
  qed
  then have "1 / 2 ^ 32 \<le> 1 / rat_of_nat n" using n by (simp add: field_simps)
  ultimately have qlow: "1 / 2 ^ 32 \<le> q" by simp
  then have qpos: "0 < q" by simp
  have "(2::rat) powi (- 1022) \<le> 2 powi (- 32)" by (rule power_int_increasing) simp_all
  also have "(2::rat) powi (- 32) = 1 / 2 ^ 32" by (simp add: power_int_minus_divide)
  finally have qn: "2 powi (- 1022) \<le> q" using qlow by simp
  have ex: "\<bar>x - q\<bar> \<le> q / 2 ^ 53" unfolding x_def by (rule to_double_error[OF qn])
  have "q < 2 powi 53" using q1 by simp
  from to_double_le_int[OF qpos _ this, of 1] q1 have x1: "x \<le> 1" by (simp add: x_def)
  from ex have "q - q / 2 ^ 53 \<le> x" by linarith
  moreover have "q / 2 \<le> q - q / 2 ^ 53" using qpos by simp
  ultimately have xh: "q / 2 \<le> x" by simp
  with qlow have xlow: "1 / 2 ^ 33 \<le> x" by simp
  then have xpos: "0 < x" by simp
  have "(2::rat) powi (- 1022) \<le> 2 powi (- 33)" by (rule power_int_increasing) simp_all
  also have "(2::rat) powi (- 33) = 1 / 2 ^ 33" by (simp add: power_int_minus_divide)
  finally have "2 powi (- 1022) \<le> x * 90" using xlow by simp
  from to_double_error[OF this] have ey: "\<bar>to_double (x * 90) - x * 90\<bar> \<le> x * 90 / 2 ^ 53" .
  have yx: "y = to_double (x * 90)" by (simp add: y_def double_mul_def double_div_def x_def q_def)
  have p: "0 < x * 90" using xpos by simp
  have "x * 90 \<le> rat_of_int 90" using x1 by simp
  moreover have "x * 90 < 2 powi 53" using x1 by simp
  ultimately have "to_double (x * 90) \<le> rat_of_int 90" by (rule to_double_le_int[OF p])
  then show "y \<le> 90" by (simp add: yx)
  show "0 \<le> y" unfolding yx using p by (intro to_double_nonneg) simp
  from ey x1 have "\<bar>y - x * 90\<bar> \<le> 90 / 2 ^ 53" unfolding yx by simp
  moreover from ex q1 have "\<bar>x - q\<bar> \<le> 1 / 2 ^ 53" by simp
  ultimately have "\<bar>y - 90 * q\<bar> \<le> 180 / 2 ^ 53" by linarith
  then show "\<bar>y - 90 * rat_of_nat (j + 1) / rat_of_nat n\<bar> \<le> 180 / 2 ^ 53"
    by (simp add: q_def)
qed

lemma progressPercent_range:
  assumes "j < n" and "n < 2 ^ 32"
  shows "0 \<le> progressPercent j n" and "progressPercent j n \<le> 90"
proof -
  let ?y = "double_mul (double_div (rat_of_nat (j + 1)) (rat_of_nat n)) 90"
  from progress_product(1,2)[OF assms] have "0 \<le> ?y" "?y \<le> 90" by simp_all
  then have "0 \<le> \<lfloor>?y + 1 / 2\<rfloor>" "\<lfloor>?y + 1 / 2\<rfloor> \<le> 90" by linarith+
  then show "0 \<le> progressPercent j n" and "progressPercent j n \<le> 90"
    by (simp_all add: progressPercent_def Math_round_def)
qed

lemma progressPercent_last:
  assumes "0 < n"
  shows "progressPercent (n - 1) n = 90"
proof -
  have q: "rat_of_nat (n - 1 + 1) / rat_of_nat n = 1" using assms by simp
  have c: "Math_round (double_mul (double_div 1 1) 90) = 90" by code_simp
  have "progressPercent (n - 1) n
        = Math_round (double_mul (to_double (rat_of_nat (n - 1 + 1) / rat_of_nat n)) 90)"
    by (simp only: progressPercent_def double_div_def)
  also have "\<dots> = Math_round (double_mul (double_div 1 1) 90)"
    by (simp only: q double_div_def div_by_1)
  finally show ?thesis by (simp only: c)
qed

text \<open>
  Against the exact quotient: \<open>round(90 * k / n)\<close> is \<open>(180 * k + n) div (2 * n)\<close>, and the
  value computed in doubles is that number unless \<open>90 * k / n\<close> lies half-way between two
  integers, where it is that number or one less.
\<close>

lemma progressPercent_exact:
  assumes "j < n" and "n < 2 ^ 32"
  shows "progressPercent j n = int ((180 * (j + 1) + n) div (2 * n)) \<or>
         ((2 * n) dvd (180 * (j + 1) + n) \<and>
          progressPercent j n = int ((180 * (j + 1) + n) div (2 * n)) - 1)"
proof -
  define y where "y = double_mul (double_div (rat_of_nat (j + 1)) (rat_of_nat n)) 90"
  define E where "E = (180 * (j + 1) + n) div (2 * n)"
  define r where "r = (180 * (j + 1) + n) mod (2 * n)"
  have n: "0 < rat_of_nat n" using assms(1) by simp
  have pp: "progressPercent j n = \<lfloor>y + 1 / 2\<rfloor>"
    by (simp add: progressPercent_def Math_round_def y_def)
  have err: "\<bar>y - 90 * rat_of_nat (j + 1) / rat_of_nat n\<bar> \<le> 180 / 2 ^ 53"
    unfolding y_def by (rule progress_product(3)[OF assms])
  have "180 * (j + 1) + n = E * (2 * n) + r" unfolding E_def r_def by (rule div_mult_mod_eq[symmetric])
  then have "rat_of_nat (180 * (j + 1) + n) = rat_of_nat (E * (2 * n) + r)" by simp
  then have "90 * rat_of_nat (j + 1) / rat_of_nat n + 1 / 2
             = rat_of_nat E + rat_of_nat r / (2 * rat_of_nat n)"
    using n by (simp add: field_simps)
  with err have lo: "rat_of_nat E + rat_of_nat r / (2 * rat_of_nat n) - 180 / 2 ^ 53 \<le> y + 1 / 2"
    and hi: "y + 1 / 2 \<le> rat_of_nat E + rat_of_nat r / (2 * rat_of_nat n) + 180 / 2 ^ 53"
    by linarith+
  have "rat_of_nat n \<le> rat_of_nat (2 ^ 32)" using assms(2) by (simp only: of_nat_le_iff)
  then have "2 * rat_of_nat n \<le> 2 ^ 33" by simp
  then have "1 / 2 ^ 33 \<le> 1 / (2 * rat_of_nat n)" using n by (simp add: field_simps)
  then have small: "180 / 2 ^ 53 < 1 / (2 * rat_of_nat n)" by simp
  show ?thesis
  proof (cases "r = 0")
    case True
    then have d: "(2 * n) dvd (180 * (j + 1) + n)" by (simp add: r_def mod_eq_0_iff_dvd)
    from lo hi True have "rat_of_nat E - 1 \<le> y + 1 / 2" "y + 1 / 2 < rat_of_nat E + 1" by simp_all
    then have "rat_of_int (int E - 1) \<le> y + 1 / 2" "y + 1 / 2 < rat_of_int (int E + 1)"
      by simp_all
    then have "int E - 1 \<le> \<lfloor>y + 1 / 2\<rfloor>" "\<lfloor>y + 1 / 2\<rfloor> < int E + 1"
      by (simp_all only: le_floor_iff floor_less_iff)
    then have "\<lfloor>y + 1 / 2\<rfloor> = int E \<or> \<lfloor>y + 1 / 2\<rfloor> = int E - 1" by linarith
    with d show ?thesis by (auto simp add: pp E_def)
  next
    case False
    then have r1: "1 \<le> rat_of_nat r" by simp
    have "r < 2 * n" unfolding r_def using assms(1) by simp
    then have "r + 1 \<le> 2 * n" by simp
    then have "rat_of_nat (r + 1) \<le> rat_of_nat (2 * n)" by (simp only: of_nat_le_iff)
    then have r2: "rat_of_nat r \<le> 2 * rat_of_nat n - 1" by simp
    from r1 have "1 / (2 * rat_of_nat n) \<le> rat_of_nat r / (2 * rat_of_nat n)"
      using n by (simp add: divide_right_mono)
    with small lo have a: "rat_of_nat E < y + 1 / 2" by linarith
    from r2 have "rat_of_nat r / (2 * rat_of_nat n) \<le> (2 * rat_of_nat n - 1) / (2 * rat_of_nat n)"
      using n by (simp add: divide_right_mono)
    also have "\<dots> = 1 - 1 / (2 * rat_of_nat n)" using n by (simp add: field_simps)
    finally have "y + 1 / 2 < rat_of_nat E + 1" using small hi by linarith
    with a have "rat_of_int (int E) \<le> y + 1 / 2" "y + 1 / 2 < rat_of_int (int E + 1)"
      by simp_all
    then have "int E \<le> \<lfloor>y + 1 / 2\<rfloor>" "\<lfloor>y + 1 / 2\<rfloor> < int E + 1"
      by (simp_all only: le_floor_iff floor_less_iff)
    then have "\<lfloor>y + 1 / 2\<rfloor> = int E" by linarith
    then show ?thesis by (simp add: pp E_def)
  qed
qed

lemma sendSMS_progress:
  assumes "validRecipients req \<noteq> []" and "campaign_of req \<noteq> None \<or> hasLinkPlaceholder req"
    and "sendSMS e req w = (response, w')"
    and "n = (length (validRecipients req) + 99) div 100"
  shows "progress_log w' = progress_log w @ [0] @ map (\<lambda>j. progressPercent j n) [0..<n] @ [100]"
proof -
  let ?w0 = "setProgress 0 (setSending True w)"
  from personalized_response[OF assms(1-3)] obtain res w1 where
    p: "personalized_send e req (validRecipients req) ?w0 = (res, w1)"
    and w': "w' = setSending False w1" by blast
  have "length (make_batches 0 (validRecipients req)) = n"
    by (simp add: length_make_batches assms(4))
  with personalized_send_facts(2)[OF p] show ?thesis
    by (simp add: w' setSending_facts setProgress_facts)
qed

text \<open>
  After batch 7 of 20 the code reports 31: the quotient \<open>7 / 20\<close> is not a double, and the
  product of the nearest double with 90 is rounded to a double just below \<open>31.5\<close>, where
  \<open>90 * 7 / 20\<close> is \<open>31.5\<close> and would be rounded to 32.
\<close>

lemma progressPercent_7_of_20:
  "progressPercent 6 20 = 31 \<and> Math_round (90 * 7 / 20) = 32"
  by code_simp

text \<open>
  C8, amended. A send that takes the personalized branch, in \<open>n\<close> batches, of fewer than
  \<open>2 ^ 32\<close> recipients (the bound on the length of an array): the progress is set to 0,
  then after batch \<open>k\<close> (for every \<open>k\<close> from 1 to \<open>n\<close>) to
  \<open>Math.round((k / n) * 90)\<close> as doubles compute it, and then to 100. The value after
  batch \<open>k\<close> lies between 0 and 90 and is 90 after the last batch. It is \<open>round(90 * k / n)\<close>,
  the integer \<open>(180 * k + n) div (2 * n)\<close>, except that it can be one less when
  \<open>90 * k / n\<close> lies half-way between two integers.
\<close>

theorem progress_scaled_to_90:
  assumes "validRecipients req \<noteq> []" and "campaign_of req \<noteq> None \<or> hasLinkPlaceholder req"
    and "sendSMS e req w = (response, w')"
    and "n = (length (validRecipients req) + 99) div 100"
    and "length (validRecipients req) < 2 ^ 32"
  shows "progress_log w' = progress_log w @ [0] @ map (\<lambda>j. progressPercent j n) [0..<n] @ [100] \<and>
         list_all (\<lambda>j. 0 \<le> progressPercent j n \<and> progressPercent j n \<le> 90 \<and>
                        (progressPercent j n = int ((180 * (j + 1) + n) div (2 * n)) \<or>
                         ((2 * n) dvd (180 * (j + 1) + n) \<and>
                          progressPercent j n = int ((180 * (j + 1) + n) div (2 * n)) - 1)))
           [0..<n] \<and>
         0 < n \<and> progressPercent (n - 1) n = 90"
proof -
  from assms(1) have "100 \<le> length (validRecipients req) + 99"
    by (cases "validRecipients req") simp_all
  then have "100 div 100 \<le> (length (validRecipients req) + 99) div 100"
    by (rule div_le_mono)
  then have n: "0 < n" unfolding assms(4) by simp
  have "n \<le> length (validRecipients req)" unfolding assms(4) by simp
  with assms(5) have n32: "n < 2 ^ 32" by simp
  have "list_all (\<lambda>j. 0 \<le> progressPercent j n \<and> progressPercent j n \<le> 90 \<and>
                        (progressPercent j n = int ((180 * (j + 1) + n) div (2 * n)) \<or>
                         ((2 * n) dvd (180 * (j + 1) + n) \<and>
                          progressPercent j n = int ((180 * (j + 1) + n) div (2 * n)) - 1)))
           [0..<n]"
    unfolding list_all_iff
    using progressPercent_range[OF _ n32] progressPercent_exact[OF _ n32] by simp
  with sendSMS_progress[OF assms(1-4)] n progressPercent_last[OF n] show ?thesis by simp
qed

theorem progress_scaled_to_90_witness:
  "validRecipients (link_request ''Visit {{ link }}'' 250) \<noteq> [] \<and>
   hasLinkPlaceholder (link_request ''Visit {{ link }}'' 250) \<and>
   (3::nat) = (length (validRecipients (link_request ''Visit {{ link }}'' 250)) + 99) div 100 \<and>
   length (validRecipients (link_request ''Visit {{ link }}'' 250)) < 2 ^ 32 \<and>
   progress_log (snd (sendSMS example_env (link_request ''Visit {{ link }}'' 250) empty_world))
     = [0, 30, 60, 90, 100]"
proof -
  let ?req = "link_request ''Visit {{ link }}'' 250"
  have h1: "validRecipients ?req \<noteq> []"
    by (simp add: validRecipients_link_request)
  have h2: "hasLinkPlaceholder ?req"
    by (simp add: hasLinkPlaceholder_def link_request_def)
  have h3: "(3::nat) = (length (validRecipients ?req) + 99) div 100"
    by (simp add: validRecipients_link_request)
  have h4: "length (validRecipients ?req) < 2 ^ 32"
    by (simp add: validRecipients_link_request)
  have "[0..<3] = [0, 1, 2]" by (simp add: upt_rec)
  moreover have "progressPercent 0 3 = 30" "progressPercent 1 3 = 60" "progressPercent 2 3 = 90"
    by code_simp+
  ultimately show ?thesis
    using progress_scaled_to_90[OF h1 disjI2[OF h2] surjective_pairing h3 h4] h1 h2 h3 h4
    by (simp add: empty_world_def)
qed

text \<open>
  C8 as stated fails: a send to 101 recipients runs in two batches; after the first the
  code reports 45, where \<open>round(100 * 1 / 2)\<close> capped at 90 is 50.
\<close>

theorem progress_after_first_of_two_batches:
  "progress_log (snd (sendSMS example_env (link_request ''Visit {{ link }}'' 101) empty_world))
     = [0, 45, 90, 100] \<and>
   spec_progress 1 2 = 50"
proof -
  let ?req = "link_request ''Visit {{ link }}'' 101"
  have h1: "validRecipients ?req \<noteq> []"
    by (simp add: validRecipients_link_request)
  have h2: "hasLinkPlaceholder ?req"
    by (simp add: hasLinkPlaceholder_def link_request_def)
  have h3: "(2::nat) = (length (validRecipients ?req) + 99) div 100"
    by (simp add: validRecipients_link_request)
  have "[0..<2] = [0, 1]" by (simp add: upt_rec)
  moreover have "progressPercent 0 2 = 45" "progressPercent 1 2 = 90" "spec_progress 1 2 = 50"
    by code_simp+
  ultimately show ?thesis
    using sendSMS_progress[OF h1 disjI2[OF h2] surjective_pairing h3]
    by (simp add: empty_world_def)
qed


section \<open>Exceptions\<close>

lemma sendBulkSMS_plain:
  "sendBulkSMS e (validRecipients req) (message req) (sender req) (test req) None w0 =
     (case functions_invoke e (length (invocations w0)) (plain_body req) of
        InvokeThrows err \<Rightarrow> (Inl err, w0\<lparr>invocations := invocations w0 @ [plain_body req]\<rparr>)
      | InvokeError err \<Rightarrow>
          (Inl (ErrorObject (bulk_error_message err)),
           setProgress 100 (w0\<lparr>invocations := invocations w0 @ [plain_body req]\<rparr>))
      | InvokeData d \<Rightarrow>
          (Inr d, setProgress 100 (w0\<lparr>invocations := invocations w0 @ [plain_body req]\<rparr>)))"
  unfolding sendBulkSMS_def plain_body_def Let_def by (rule refl)

lemma sendSMS_try_sending:
  "sending_log (snd (sendSMS_try e req w0)) = sending_log w0"
proof (cases "validRecipients req = []")
  case True
  then show ?thesis by (simp add: sendSMS_try_def)
next
  case False
  note ne = validRecipients_nonempty[OF False]
  show ?thesis
  proof (cases "campaign_of req = None \<and> \<not> hasLinkPlaceholder req")
    case True
    with False ne show ?thesis
      by (simp add: sendSMS_try_def sendBulkSMS_plain setProgress_facts
               split: invoke_result.splits)
  next
    case False
    obtain res w1 where p: "personalized_send e req (validRecipients req) w0 = (res, w1)"
      by force
    from False ne \<open>validRecipients req \<noteq> []\<close> p personalized_send_facts(3)[OF p]
    show ?thesis by (auto simp: sendSMS_try_def)
  qed
qed

lemma sum_list_reply_sent_zero:
  "list_all (\<lambda>r. reply_sent r = 0) rs \<Longrightarrow> sum_list (map reply_sent rs) = 0"
  by (induction rs) simp_all

text \<open>
  C10. \<open>sendSMS\<close> returns a result for every request, environment and world, and its
  \<open>finally\<close> clause has run (\<open>setSending(false)\<close>). Whatever the \<open>try\<close> block throws is
  turned into a result with \<open>success = false\<close> and the message of the exception: so it is
  for a missing or empty recipient list, for a list without a valid recipient, and for an
  exception or an error of the invocation on a plain send. On a personalized send the
  failures of the invocations are collected, and when no batch reports a sent message the
  result has \<open>success = false\<close> and an error message.
\<close>

theorem sendSMS_never_throws:
  "\<exists>response w'. sendSMS e req w = (response, w') \<and>
     sending_log w' = sending_log w @ [True, False] \<and>
     (\<forall>err w1. sendSMS_try e req (setProgress 0 (setSending True w)) = (Inl err, w1) \<longrightarrow>
        success response = False \<and>
        error response = Some (thrown_message ''Unknown error occurred'' err)) \<and>
     ((case recipients req of None \<Rightarrow> True | Some ps \<Rightarrow> ps = []) \<longrightarrow>
        success response = False \<and> error response = Some ''No recipients provided'') \<and>
     (\<not> (case recipients req of None \<Rightarrow> True | Some ps \<Rightarrow> ps = []) \<and> validRecipients req = [] \<longrightarrow>
        success response = False \<and> error response = Some ''No valid recipients found'') \<and>
     (validRecipients req \<noteq> [] \<and> campaign_of req = None \<and> \<not> hasLinkPlaceholder req \<longrightarrow>
        (case functions_invoke e (length (invocations w)) (plain_body req) of
           InvokeThrows err \<Rightarrow>
             success response = False \<and>
             error response = Some (thrown_message ''Unknown error occurred'' err)
         | InvokeError err \<Rightarrow>
             success response = False \<and> error response = Some (bulk_error_message err)
         | InvokeData d \<Rightarrow> response = d)) \<and>
     (validRecipients req \<noteq> [] \<and> (campaign_of req \<noteq> None \<or> hasLinkPlaceholder req) \<longrightarrow>
        (\<exists>calls. invocations w' = invocations w @ calls \<and>
           (list_all (\<lambda>r. reply_sent r = 0) (replies e (length (invocations w)) calls) \<longrightarrow>
              success response = False \<and> error response \<noteq> None)))"
proof -
  let ?w0 = "setProgress 0 (setSending True w)"
  obtain response w' where s: "sendSMS e req w = (response, w')" by force
  obtain r w1 where t: "sendSMS_try e req ?w0 = (r, w1)" by force
  have w': "w' = setSending False w1"
    using s t by (cases r) (simp_all add: sendSMS_def)
  have resp: "response = (case r of Inl err \<Rightarrow> failure_response (thrown_message ''Unknown error occurred'' err)
                          | Inr x \<Rightarrow> x)"
    using s t by (cases r) (simp_all add: sendSMS_def)
  have a: "sending_log w' = sending_log w @ [True, False]"
    using sendSMS_try_sending[of e req ?w0] t
    by (simp add: w' setSending_facts setProgress_facts)
  have b: "success response = False \<and>
           error response = Some (thrown_message ''Unknown error occurred'' err)"
    if "sendSMS_try e req ?w0 = (Inl err, wa)" for err wa
    using that t resp by (simp add: failure_response_def)
  have c: "success response = False \<and> error response = Some ''No recipients provided''"
    if "case recipients req of None \<Rightarrow> True | Some ps \<Rightarrow> ps = []"
    using that t resp by (auto simp: sendSMS_try_def failure_response_def)
  have d: "success response = False \<and> error response = Some ''No valid recipients found''"
    if "\<not> (case recipients req of None \<Rightarrow> True | Some ps \<Rightarrow> ps = [])" "validRecipients req = []"
    using that t resp by (auto simp: sendSMS_try_def failure_response_def)
  have f: "case functions_invoke e (length (invocations w)) (plain_body req) of
           InvokeThrows err \<Rightarrow>
             success response = False \<and>
             error response = Some (thrown_message ''Unknown error occurred'' err)
         | InvokeError err \<Rightarrow>
             success response = False \<and> error response = Some (bulk_error_message err)
         | InvokeData d \<Rightarrow> response = d"
    if "validRecipients req \<noteq> []" "campaign_of req = None" "\<not> hasLinkPlaceholder req"
  proof -
    from that validRecipients_nonempty[OF that(1)] t
    have "sendBulkSMS e (validRecipients req) (message req) (sender req) (test req) None ?w0
          = (r, w1)" by (simp add: sendSMS_try_def)
    then show ?thesis
      unfolding sendBulkSMS_plain resp
      by (auto simp: setSending_facts setProgress_facts failure_response_def
               split: invoke_result.splits)
  qed
  have g: "\<exists>calls. invocations w' = invocations w @ calls \<and>
           (list_all (\<lambda>r. reply_sent r = 0) (replies e (length (invocations w)) calls) \<longrightarrow>
              success response = False \<and> error response \<noteq> None)"
    if "validRecipients req \<noteq> []" "campaign_of req \<noteq> None \<or> hasLinkPlaceholder req"
  proof -
    let ?w0 = "setProgress 0 (setSending True w)"
    from personalized_response[OF that s] obtain res wa where
      p: "personalized_send e req (validRecipients req) ?w0 = (res, wa)"
      and rr: "response = results_response res" and wa: "w' = setSending False wa" by blast
    from personalized_send_facts(1)[OF p] obtain calls where k0:
      "invocations wa = invocations ?w0 @ calls"
      "r_sentCount res = sum_list (map reply_sent (replies e (length (invocations ?w0)) calls))"
      by blast
    note q = personalized_send_facts(5,6)[OF p]
    have k: "invocations w' = invocations w @ calls"
      using k0(1) by (simp add: wa setSending_facts setProgress_facts)
    have "success response = False \<and> error response \<noteq> None"
      if "list_all (\<lambda>r. reply_sent r = 0) (replies e (length (invocations w)) calls)"
      using sum_list_reply_sent_zero[OF that] k0(2) q
      by (simp add: rr results_response_def setSending_facts setProgress_facts)
    with k show ?thesis by blast
  qed
  show ?thesis
    apply (rule exI[of _ response], rule exI[of _ w'])
    apply (intro conjI)
    subgoal by (rule s)
    subgoal by (rule a)
    subgoal by (intro allI impI, erule b)
    subgoal by (intro impI, erule c)
    subgoal by (intro impI, elim conjE, erule (1) d)
    subgoal by (intro impI, elim conjE, erule (2) f)
    subgoal by (intro impI, elim conjE, erule (1) g)
    done
qed

text \<open>With the edge function unreachable, a plain send ends in a result, not an exception.\<close>

theorem sendSMS_never_throws_witness:
  "validRecipients plain_request \<noteq> [] \<and> campaign_of plain_request = None \<and>
   \<not> hasLinkPlaceholder plain_request \<and>
   functions_invoke gateway_down_env (length (invocations empty_world)) (plain_body plain_request)
     = InvokeThrows (ErrorObject ''Failed to fetch'') \<and>
   success (fst (sendSMS gateway_down_env plain_request empty_world)) = False \<and>
   error (fst (sendSMS gateway_down_env plain_request empty_world)) = Some ''Failed to fetch''"
proof -
  have h: "validRecipients plain_request \<noteq> []" "campaign_of plain_request = None"
    "\<not> hasLinkPlaceholder plain_request"
    by (simp_all add: validRecipients_def plain_request_def valid_phone_def trim_def
          isWhiteSpace_def campaign_of_def hasLinkPlaceholder_def)
  have i: "functions_invoke gateway_down_env (length (invocations empty_world))
             (plain_body plain_request) = InvokeThrows (ErrorObject ''Failed to fetch'')"
    by (simp add: gateway_down_env_def)
  from sendSMS_never_throws[of gateway_down_env plain_request empty_world] h i
  show ?thesis by auto
qed


section \<open>Resolving a pair twice\<close>

lemma select_campaign_world:
  "snd (select_campaign_short_id e cid w) = w\<lparr>db_requests := Suc (db_requests w)\<rparr>"
  by (simp add: select_campaign_short_id_def db_request_def split: option.splits list.splits)

lemma select_user_existing:
  assumes "distinct (map u_phone_number (users (db w)))" and "u \<in> set (users (db w))"
    and "u_phone_number u = np"
  shows "select_user_single e np w =
           (case db_fault e (db_requests w) of
              Some err \<Rightarrow> (Inl err, w\<lparr>db_requests := Suc (db_requests w)\<rparr>)
            | None \<Rightarrow> (Inr u, w\<lparr>db_requests := Suc (db_requests w)\<rparr>))"
proof -
  from distinct_map_filter_single[OF assms(1,2)] assms(3)
  have "filter (\<lambda>y. u_phone_number y = np) (users (db w)) = [u]" by simp
  then show ?thesis
    by (simp add: select_user_single_def db_request_def split: option.splits)
qed

lemma insert_user_existing:
  assumes "np \<in> set (map u_phone_number (users (db w)))"
  shows "insert_user e np c st w =
           (Inl (case db_fault e (db_requests w) of Some err \<Rightarrow> err | None \<Rightarrow> unique_violation e),
            w\<lparr>db_requests := Suc (db_requests w)\<rparr>)"
  using assms by (simp add: insert_user_def db_request_def split: option.splits)

lemma find_or_create_user_existing:
  assumes "distinct (map u_phone_number (users (db w)))" and "u \<in> set (users (db w))"
    and "u_phone_number u = np"
  shows "find_or_create_user e np w =
           (case db_fault e (db_requests w) of
              None \<Rightarrow> (Inr (u_id u), w\<lparr>db_requests := Suc (db_requests w)\<rparr>)
            | Some userError \<Rightarrow>
                (Inl (case db_fault e (Suc (db_requests w)) of
                        Some err \<Rightarrow> err | None \<Rightarrow> unique_violation e),
                 w\<lparr>db_requests := Suc (Suc (db_requests w))\<rparr>))"
proof (cases "db_fault e (db_requests w)")
  case None
  then show ?thesis
    by (simp add: find_or_create_user_def select_user_existing[OF assms])
next
  case (Some userError)
  let ?w1 = "w\<lparr>db_requests := Suc (db_requests w)\<rparr>"
  from assms(2,3) have "np \<in> set (map u_phone_number (users (db ?w1)))" by auto
  from insert_user_existing[OF this] Some show ?thesis
    by (simp add: find_or_create_user_def select_user_existing[OF assms] Let_def)
qed

lemma select_recipient_existing:
  assumes "distinct (map recipient_key (campaign_recipients (db w)))"
    and "row \<in> set (campaign_recipients (db w))" and "recipient_key row = (cid, uid)"
  shows "select_recipient_single e cid uid w =
           (case db_fault e (db_requests w) of
              Some err \<Rightarrow> (Inl err, w\<lparr>db_requests := Suc (db_requests w)\<rparr>)
            | None \<Rightarrow> (Inr row, w\<lparr>db_requests := Suc (db_requests w)\<rparr>))"
proof -
  from distinct_map_filter_single[OF assms(1,2)] assms(3)
  have "filter (\<lambda>y. recipient_key y = (cid, uid)) (campaign_recipients (db w)) = [row]" by simp
  then show ?thesis
    by (simp add: select_recipient_single_def db_request_def split: option.splits)
qed

lemma insert_recipient_existing:
  assumes "recipient_key row \<in> set (map recipient_key (campaign_recipients (db w)))"
  shows "insert_recipient e row w =
           (Some (case db_fault e (db_requests w) of Some err \<Rightarrow> err | None \<Rightarrow> unique_violation e),
            w\<lparr>db_requests := Suc (db_requests w)\<rparr>)"
  using assms by (simp add: insert_recipient_def db_request_def split: option.splits)

lemma find_or_create_recipient_existing:
  assumes "distinct (map recipient_key (campaign_recipients (db w)))"
    and "row \<in> set (campaign_recipients (db w))" and "recipient_key row = (cid, uid)"
  shows "find_or_create_recipient e cid uid w =
           (case db_fault e (db_requests w) of
              None \<Rightarrow> (Inr (cr_unique_token row),
                        update_recipient_status e cid uid ''sent''
                          (w\<lparr>db_requests := Suc (db_requests w)\<rparr>))
            | Some recipientError \<Rightarrow>
                (Inl (case db_fault e (Suc (db_requests w)) of
                        Some err \<Rightarrow> err | None \<Rightarrow> unique_violation e),
                 w\<lparr>db_requests := Suc (Suc (db_requests w)),
                   random_draws := Suc (random_draws w)\<rparr>))"
proof (cases "db_fault e (db_requests w)")
  case None
  then show ?thesis
    by (simp add: find_or_create_recipient_def select_recipient_existing[OF assms])
next
  case (Some recipientError)
  let ?w2 = "w\<lparr>db_requests := Suc (db_requests w), random_draws := Suc (random_draws w)\<rparr>"
  let ?t = "map base36_char (take 8 (random_digits e (random_draws w)))"
  let ?new = "\<lparr>cr_campaign_id = cid, cr_user_id = uid, cr_status = ''sent'', cr_unique_token = ?t\<rparr>"
  have "recipient_key ?new = recipient_key row"
    by (simp add: recipient_key_def assms(3)[unfolded recipient_key_def])
  moreover from assms(2)
  have "recipient_key row \<in> set (map recipient_key (campaign_recipients (db w)))" by simp
  ultimately
  have "recipient_key ?new \<in> set (map recipient_key (campaign_recipients (db ?w2)))" by simp
  from insert_recipient_existing[OF this] Some show ?thesis
    by (simp add: find_or_create_recipient_def select_recipient_existing[OF assms]
                  random_token_def)
qed

lemma update_status_same_rows:
  "users (db (update_recipient_status e cid uid st w)) = users (db w)"
  "map (\<lambda>r. (cr_campaign_id r, cr_user_id r, cr_unique_token r))
       (campaign_recipients (db (update_recipient_status e cid uid st w)))
     = map (\<lambda>r. (cr_campaign_id r, cr_user_id r, cr_unique_token r)) (campaign_recipients (db w))"
proof -
  let ?f = "\<lambda>r. if recipient_key r = (cid, uid) then r\<lparr>cr_status := st\<rparr> else r"
  let ?g = "\<lambda>r. (cr_campaign_id r, cr_user_id r, cr_unique_token r)"
  have t: "map ?g (map ?f rows) = map ?g rows" for rows
    by (induction rows) simp_all
  show "users (db (update_recipient_status e cid uid st w)) = users (db w)"
    by (simp add: update_recipient_status_def db_request_def split: option.splits)
  show "map ?g (campaign_recipients (db (update_recipient_status e cid uid st w)))
     = map ?g (campaign_recipients (db w))"
    unfolding update_recipient_status_def db_request_def
    by (cases "db_fault e (db_requests w)") (simp_all add: t del: map_map)
qed


lemma resolve_token_campaign_found:
  assumes "campaign_of req = Some cid" and "resolve_token e req hl np w = (Inr t, w1)"
  shows "\<exists>u row. u \<in> set (users (db w1)) \<and> u_phone_number u = np \<and>
           row \<in> set (campaign_recipients (db w1)) \<and> recipient_key row = (cid, u_id u) \<and>
           cr_unique_token row = t"
proof -
  obtain cd wa where c: "select_campaign_short_id e cid w = (cd, wa)" by force
  obtain ur wb where u: "find_or_create_user e np wa = (ur, wb)" by force
  from assms c u obtain uid where ur: "ur = Inr uid"
    and f: "find_or_create_recipient e cid uid wb = (Inr t, w1)"
    by (auto simp: resolve_token_def split: sum.splits)
  from find_or_create_user_found u ur obtain usr where usr: "usr \<in> set (users (db wb))"
    "u_phone_number usr = np" "u_id usr = uid" by blast
  from find_or_create_recipient_step[OF f] usr(1) have "usr \<in> set (users (db w1))"
    by (auto simp: resolve_step_def)
  moreover from find_or_create_recipient_found[OF f] obtain row where
    "row \<in> set (campaign_recipients (db w1))" "recipient_key row = (cid, uid)"
    "cr_unique_token row = t"
    unfolding token_rows_def recipient_key_def by auto
  ultimately show ?thesis using usr(2,3) by blast
qed

lemma resolve_token_existing:
  assumes "uniq_db w" and "campaign_of req = Some cid"
    and "u \<in> set (users (db w))" and "u_phone_number u = np"
    and "row \<in> set (campaign_recipients (db w))" and "recipient_key row = (cid, u_id u)"
  shows "resolve_token e req hl np w =
           (case db_fault e (Suc (db_requests w)) of
              Some userError \<Rightarrow>
                (Inl (case db_fault e (Suc (Suc (db_requests w))) of
                        Some err \<Rightarrow> err | None \<Rightarrow> unique_violation e),
                 w\<lparr>db_requests := db_requests w + 3\<rparr>)
            | None \<Rightarrow>
                (case db_fault e (Suc (Suc (db_requests w))) of
                   Some recipientError \<Rightarrow>
                     (Inl (case db_fault e (db_requests w + 3) of
                             Some err \<Rightarrow> err | None \<Rightarrow> unique_violation e),
                      w\<lparr>db_requests := db_requests w + 4,
                        random_draws := Suc (random_draws w)\<rparr>)
                 | None \<Rightarrow>
                     (Inr (cr_unique_token row),
                      update_recipient_status e cid (u_id u) ''sent''
                        (w\<lparr>db_requests := db_requests w + 3\<rparr>))))"
proof -
  let ?wa = "w\<lparr>db_requests := Suc (db_requests w)\<rparr>"
  obtain cd where c: "select_campaign_short_id e cid w = (cd, ?wa)"
    using select_campaign_world[of e cid w] by (metis prod.collapse)
  have ua: "distinct (map u_phone_number (users (db ?wa)))" "u \<in> set (users (db ?wa))"
    using assms(1,3) by (simp_all add: uniq_db_def)
  note fu = find_or_create_user_existing[OF ua assms(4), of e]
  show ?thesis
  proof (cases "db_fault e (Suc (db_requests w))")
    case (Some userError)
    with fu c assms(2) show ?thesis
      by (simp add: resolve_token_def eval_nat_numeral)
  next
    case None
    let ?wb = "w\<lparr>db_requests := Suc (Suc (db_requests w))\<rparr>"
    have rb: "distinct (map recipient_key (campaign_recipients (db ?wb)))"
      "row \<in> set (campaign_recipients (db ?wb))"
      using assms(1,5) by (simp_all add: uniq_db_def)
    note fr = find_or_create_recipient_existing[OF rb assms(6), of e]
    from None fu c assms(2) fr show ?thesis
      by (simp add: resolve_token_def eval_nat_numeral split: option.splits)
  qed
qed

text \<open>
  C5. With the uniqueness constraints in place (one user per phone number, one recipient
  row per campaign and user), a resolution of a (campaign, phone) pair that returned the
  token \<open>t1\<close>, followed by a second resolution of the same pair: the second creates no
  user and no recipient row; if it returns a token, the token is \<open>t1\<close>, and it does
  return \<open>t1\<close> when its two lookups are answered; the constraints still hold, and the
  campaign has exactly one row for the user of that phone number, with the token \<open>t1\<close>.
\<close>

theorem resolving_twice_same_token:
  assumes "uniq_db w" and "campaign_of req = Some cid"
    and "resolve_token e req hl np w = (Inr t1, w1)"
    and "resolve_token e req hl np w1 = (r2, w2)"
  shows "(r2 = Inr t1 \<or> (\<exists>err. r2 = Inl err)) \<and>
         (db_fault e (db_requests w1 + 1) = None \<and> db_fault e (db_requests w1 + 2) = None
            \<longrightarrow> r2 = Inr t1) \<and>
         users (db w2) = users (db w1) \<and>
         length (campaign_recipients (db w2)) = length (campaign_recipients (db w1)) \<and>
         uniq_db w2 \<and>
         (\<exists>u row. u \<in> set (users (db w2)) \<and> u_phone_number u = np \<and>
            filter (\<lambda>r. recipient_key r = (cid, u_id u)) (campaign_recipients (db w2)) = [row] \<and>
            cr_unique_token row = t1)"
proof -
  let ?g = "\<lambda>r. (cr_campaign_id r, cr_user_id r, cr_unique_token r)"
  from resolve_token_campaign_found[OF assms(2,3)] obtain u row where
    f: "u \<in> set (users (db w1))" "u_phone_number u = np"
    "row \<in> set (campaign_recipients (db w1))" "recipient_key row = (cid, u_id u)"
    "cr_unique_token row = t1" by blast
  from resolve_token_step[OF assms(3)] assms(1) have u1: "uniq_db w1"
    by (simp add: resolve_step_def)
  from resolve_token_step[OF assms(4)] u1 have u2: "uniq_db w2"
    by (simp add: resolve_step_def)
  note ex = resolve_token_existing[OF u1 assms(2) f(1,2,3,4), of e hl]
  from ex assms(4) f(5) have a: "r2 = Inr t1 \<or> (\<exists>err. r2 = Inl err)"
    by (auto split: option.splits)
  from ex assms(4) f(5) have b: "r2 = Inr t1"
    if "db_fault e (db_requests w1 + 1) = None" "db_fault e (db_requests w1 + 2) = None"
    using that by simp
  from ex assms(4) have c: "users (db w2) = users (db w1)"
    by (auto simp: update_status_same_rows(1) split: option.splits)
  from ex assms(4) have d: "map ?g (campaign_recipients (db w2)) = map ?g (campaign_recipients (db w1))"
    by (auto simp: update_status_same_rows(2) split: option.splits)
  then have d': "length (campaign_recipients (db w2)) = length (campaign_recipients (db w1))"
    by (rule map_eq_imp_length_eq)
  from f(3,4,5) have "(cid, u_id u, t1) \<in> set (map ?g (campaign_recipients (db w1)))"
    by (force simp: recipient_key_def)
  then have "(cid, u_id u, t1) \<in> set (map ?g (campaign_recipients (db w2)))"
    by (simp only: d)
  then obtain row2 where r2: "row2 \<in> set (campaign_recipients (db w2))"
    "recipient_key row2 = (cid, u_id u)" "cr_unique_token row2 = t1"
    by (auto simp: recipient_key_def)
  from u2 have "distinct (map recipient_key (campaign_recipients (db w2)))"
    by (simp add: uniq_db_def)
  from distinct_map_filter_single[OF this r2(1)] r2(2)
  have "filter (\<lambda>r. recipient_key r = (cid, u_id u)) (campaign_recipients (db w2)) = [row2]"
    by simp
  with f(1,2) c r2(3) have e: "\<exists>u row. u \<in> set (users (db w2)) \<and> u_phone_number u = np \<and>
            filter (\<lambda>r. recipient_key r = (cid, u_id u)) (campaign_recipients (db w2)) = [row] \<and>
            cr_unique_token row = t1"
    by auto
  from a b c d' u2 e show ?thesis by blast
qed

theorem resolving_twice_same_token_witness:
  "uniq_db empty_world \<and> campaign_of campaign_request = Some ''c1'' \<and>
   fst (resolve_token example_env campaign_request True ''+359888123456'' empty_world)
     = Inr ''ABC12345'' \<and>
   fst (resolve_token example_env campaign_request True ''+359888123456''
          (snd (resolve_token example_env campaign_request True ''+359888123456'' empty_world)))
     = Inr ''ABC12345''"
proof -
  let ?r1 = "resolve_token example_env campaign_request True ''+359888123456'' empty_world"
  let ?r2 = "resolve_token example_env campaign_request True ''+359888123456'' (snd ?r1)"
  have h1: "uniq_db empty_world" by (simp add: uniq_db_def empty_world_def)
  have h2: "campaign_of campaign_request = Some ''c1''"
    by (simp add: campaign_of_def campaign_request_def)
  have f1: "fst ?r1 = Inr ''ABC12345''" by code_simp
  then have h3: "?r1 = (Inr ''ABC12345'', snd ?r1)" by (metis prod.collapse)
  have n: "db_fault example_env (db_requests (snd ?r1) + 1) = None"
    "db_fault example_env (db_requests (snd ?r1) + 2) = None"
    by (simp_all add: example_env_def)
  from resolving_twice_same_token[OF h1 h2 h3 surjective_pairing] n
  have "fst ?r2 = Inr ''ABC12345''" by blast
  with h1 h2 f1 show ?thesis by simp
qed


section \<open>Uniqueness violations\<close>

lemma process_recipient_throws:
  assumes "resolve_token e req hl (normalizePhoneNumber e phone) w = (Inl err, w1)"
  shows "process_recipient e req hl phone (rs, ls, res, w) =
           (rs @ [normalizePhoneNumber e phone], ls @ [[]],
            res\<lparr>r_errors := r_errors res @
                   [normalizePhoneNumber e phone @ '': '' @ thrown_message ''Unknown error'' err]\<rparr>,
            w1)"
  using assms by (simp add: process_recipient_def Let_def)

text \<open>
  C7, amended. A user or a campaign recipient that already exists (under the uniqueness
  constraints) and whose lookup gives an error: the insert that follows violates the
  constraint, and the violation is thrown. The existing row is not read: three database
  requests were made for the user (campaign, lookup, insert), four for the recipient; the
  recipient of the message is recorded in \<open>errors\<close> and gets an empty link.
\<close>

theorem uniqueness_violation_is_thrown:
  assumes "uniq_db w" and "campaign_of req = Some cid"
    and "u \<in> set (users (db w))" and "u_phone_number u = normalizePhoneNumber e phone"
  shows "(db_fault e (db_requests w + 1) \<noteq> None \<and> db_fault e (db_requests w + 2) = None \<longrightarrow>
            process_recipient e req hl phone (rs, ls, res, w) =
              (rs @ [normalizePhoneNumber e phone], ls @ [[]],
               res\<lparr>r_errors := r_errors res @
                      [normalizePhoneNumber e phone @ '': '' @
                       thrown_message ''Unknown error'' (unique_violation e)]\<rparr>,
               w\<lparr>db_requests := db_requests w + 3\<rparr>)) \<and>
         (row \<in> set (campaign_recipients (db w)) \<and> recipient_key row = (cid, u_id u) \<and>
          db_fault e (db_requests w + 1) = None \<and> db_fault e (db_requests w + 2) \<noteq> None \<and>
          db_fault e (db_requests w + 3) = None \<longrightarrow>
            process_recipient e req hl phone (rs, ls, res, w) =
              (rs @ [normalizePhoneNumber e phone], ls @ [[]],
               res\<lparr>r_errors := r_errors res @
                      [normalizePhoneNumber e phone @ '': '' @
                       thrown_message ''Unknown error'' (unique_violation e)]\<rparr>,
               w\<lparr>db_requests := db_requests w + 4, random_draws := Suc (random_draws w)\<rparr>))"
proof (intro conjI impI)
  let ?np = "normalizePhoneNumber e phone"
  let ?wa = "w\<lparr>db_requests := Suc (db_requests w)\<rparr>"
  obtain cd where c: "select_campaign_short_id e cid w = (cd, ?wa)"
    using select_campaign_world[of e cid w] by (metis prod.collapse)
  have ua: "distinct (map u_phone_number (users (db ?wa)))" "u \<in> set (users (db ?wa))"
    using assms(1,3) by (simp_all add: uniq_db_def)
  note fu = find_or_create_user_existing[OF ua assms(4), of e]
  {
    assume "db_fault e (db_requests w + 1) \<noteq> None \<and> db_fault e (db_requests w + 2) = None"
    with fu c assms(2)
    have "resolve_token e req hl ?np w
            = (Inl (unique_violation e), w\<lparr>db_requests := db_requests w + 3\<rparr>)"
      by (auto simp: resolve_token_def eval_nat_numeral)
    then show "process_recipient e req hl phone (rs, ls, res, w) =
              (rs @ [?np], ls @ [[]],
               res\<lparr>r_errors := r_errors res @
                      [?np @ '': '' @ thrown_message ''Unknown error'' (unique_violation e)]\<rparr>,
               w\<lparr>db_requests := db_requests w + 3\<rparr>)"
      by (rule process_recipient_throws)
  }
  {
    assume a: "row \<in> set (campaign_recipients (db w)) \<and> recipient_key row = (cid, u_id u) \<and>
          db_fault e (db_requests w + 1) = None \<and> db_fault e (db_requests w + 2) \<noteq> None \<and>
          db_fault e (db_requests w + 3) = None"
    then have "resolve_token e req hl ?np w
            = (Inl (unique_violation e),
               w\<lparr>db_requests := db_requests w + 4, random_draws := Suc (random_draws w)\<rparr>)"
      using resolve_token_existing[OF assms(1,2,3,4), of row e hl]
      by (auto simp: eval_nat_numeral)
    then show "process_recipient e req hl phone (rs, ls, res, w) =
              (rs @ [?np], ls @ [[]],
               res\<lparr>r_errors := r_errors res @
                      [?np @ '': '' @ thrown_message ''Unknown error'' (unique_violation e)]\<rparr>,
               w\<lparr>db_requests := db_requests w + 4, random_draws := Suc (random_draws w)\<rparr>)"
      by (rule process_recipient_throws)
  }
qed

theorem uniqueness_violation_is_thrown_witness:
  "uniq_db existing_world \<and> campaign_of campaign_request = Some ''c1'' \<and>
   db_fault lookup_fault_env (db_requests existing_world + 1) \<noteq> None \<and>
   db_fault lookup_fault_env (db_requests existing_world + 2) = None \<and>
   process_recipient lookup_fault_env campaign_request True ''+359888123456''
       ([], [], initial_results 1, existing_world) =
     ([''+359888123456''], [[]],
      (initial_results 1)\<lparr>r_errors := [''+359888123456: duplicate key'']\<rparr>,
      existing_world\<lparr>db_requests := 3\<rparr>)"
proof -
  let ?u = "\<lparr>u_id = ''u0'', u_phone_number = ''+359888123456'', u_country = ''BG'',
             u_status = ''active''\<rparr>"
  have h1: "uniq_db existing_world"
    by (simp add: uniq_db_def existing_world_def empty_world_def)
  have h2: "campaign_of campaign_request = Some ''c1''"
    by (simp add: campaign_of_def campaign_request_def)
  have h3: "?u \<in> set (users (db existing_world))"
    by (simp add: existing_world_def empty_world_def)
  have h4: "u_phone_number ?u = normalizePhoneNumber lookup_fault_env ''+359888123456''"
    by (simp add: lookup_fault_env_def example_env_def)
  have f: "db_fault lookup_fault_env (db_requests existing_world + 1) \<noteq> None"
    "db_fault lookup_fault_env (db_requests existing_world + 2) = None"
    by (simp_all add: lookup_fault_env_def example_env_def existing_world_def empty_world_def)
  have n: "normalizePhoneNumber lookup_fault_env ''+359888123456'' = ''+359888123456''"
    "unique_violation lookup_fault_env = ErrorObject ''duplicate key''"
    "db_requests existing_world = 0"
    by (simp_all add: lookup_fault_env_def example_env_def existing_world_def empty_world_def)
  from uniqueness_violation_is_thrown[OF h1 h2 h3 h4, of True "[]" "[]" "initial_results 1"] f
  have "process_recipient lookup_fault_env campaign_request True ''+359888123456''
       ([], [], initial_results 1, existing_world) =
     ([normalizePhoneNumber lookup_fault_env ''+359888123456''], [[]],
      (initial_results 1)\<lparr>r_errors := r_errors (initial_results 1) @
         [normalizePhoneNumber lookup_fault_env ''+359888123456'' @ '': '' @
          thrown_message ''Unknown error'' (unique_violation lookup_fault_env)]\<rparr>,
      existing_world\<lparr>db_requests := db_requests existing_world + 3\<rparr>)"
    by simp
  then show ?thesis using h1 h2 f by (simp add: n initial_results_def)
qed

text \<open>
  C7 as stated fails: the user and the campaign recipient exist, with the token
  \<open>TOKEN123\<close>; the lookup of the user gives an error, the insert violates the uniqueness
  constraint, and the recipient is sent with an empty link and recorded in \<open>errors\<close>,
  where reading the existing rows would have given the link with \<open>TOKEN123\<close> (as the same
  send does when the lookup is answered).
\<close>

theorem violation_not_recovered:
  "map body_param1 (invocations (snd (sendSMS lookup_fault_env campaign_request existing_world)))
     = [Some '''']
   \<and> errors (fst (sendSMS lookup_fault_env campaign_request existing_world))
     = Some [''+359888123456: duplicate key'']
   \<and> map body_param1 (invocations (snd (sendSMS example_env campaign_request existing_world)))
     = [Some ''https://app.example/TOKEN123'']"
  by code_simp


section \<open>Failures while resolving\<close>









section \<open>Where the code departs from the specification\<close>

text \<open>
  C3 fails in the hook: \<open>testSMS\<close> (\<open>sendSMS\<close> with \<open>test: true\<close>) on a personalized send
  passes the flag to the edge function and then writes a row to \<open>bulk_messages\<close>, since
  the condition of \<open>logSMSCampaign\<close> does not look at \<open>request.test\<close>.
\<close>

theorem test_send_writes_log_row:
  "map body_test (invocations (snd (testSMS example_env (link_request ''Visit {{ link }}'' 1)
                                      empty_world))) = [True]
   \<and> bulk_messages (db (snd (testSMS example_env (link_request ''Visit {{ link }}'' 1) empty_world)))
     = [\<lparr>bm_type = ''sms'', bm_content = ''Visit {{ link }}'', bm_recipient_count = 1,
         bm_sent_count = 1, bm_status = ''completed'',
         bm_completed_at = ''2024-01-01T00:00:00.000Z'', bm_campaign_id = None\<rparr>]"
  by code_simp

text \<open>
  C4 fails: the regular expression of the substitution tolerates white space inside the
  braces, but the substitution is only made when the message contains the exact text
  \<open>{{ link }}\<close>. With one space on each side the message is sent with the marker and a
  link; without spaces or with two it is sent as it is, without a personalization
  parameter, on a plain send as on a campaign send.
\<close>

theorem placeholder_detection_is_exact:
  "replace_link ''Visit {{link}}'' = ''Visit [%1%]'' \<and>
   replace_link ''Visit {{ link }}'' = ''Visit [%1%]'' \<and>
   replace_link ''Visit {{  link  }}'' = ''Visit [%1%]'' \<and>
   map (\<lambda>c. (body_message c, body_param1 c))
     (invocations (snd (sendSMS example_env (link_request ''Visit {{ link }}'' 1) empty_world)))
     = [(''Visit [%1%]'', Some ''https://app.example/ABC12345'')] \<and>
   map (\<lambda>c. (body_message c, body_param1 c))
     (invocations (snd (sendSMS example_env (link_request ''Visit {{link}}'' 1) empty_world)))
     = [(''Visit {{link}}'', None)] \<and>
   map (\<lambda>c. (body_message c, body_param1 c))
     (invocations (snd (sendSMS example_env (link_request ''Visit {{  link  }}'' 1) empty_world)))
     = [(''Visit {{  link  }}'', None)] \<and>
   map (\<lambda>c. (body_message c, body_param1 c))
     (invocations (snd (sendSMS example_env (campaign_request\<lparr>message := ''Visit {{link}}''\<rparr>)
                          empty_world)))
     = [(''Visit {{link}}'', None)]"
  by code_simp

text \<open>
  C9 fails in the edge function: the provider's token is read in step 8, after the users
  and the campaign recipients were inserted. Without the token the answer is 500 and no
  request goes to the provider, but a user and a campaign recipient have been written.
\<close>

theorem missing_token_after_database_writes:
  "fst (edge_handler (example_edge_env\<lparr>SMSAPI_TOKEN := None\<rparr>) (POST edge_campaign_request)
          edge_world0)
     = error_response 500 ''SMSAPI token not configured''
   \<and> e_fetches (snd (edge_handler (example_edge_env\<lparr>SMSAPI_TOKEN := None\<rparr>)
                      (POST edge_campaign_request) edge_world0)) = []
   \<and> users (e_db edge_world0) = []
   \<and> users (e_db (snd (edge_handler (example_edge_env\<lparr>SMSAPI_TOKEN := None\<rparr>)
                          (POST edge_campaign_request) edge_world0)))
     = [\<lparr>u_id = ''u0'', u_phone_number = ''+359888123456'', u_country = ''BG'',
         u_status = ''active''\<rparr>]
   \<and> campaign_recipients (e_db (snd (edge_handler (example_edge_env\<lparr>SMSAPI_TOKEN := None\<rparr>)
                                        (POST edge_campaign_request) edge_world0)))
     = [\<lparr>cr_campaign_id = ''c1'', cr_user_id = ''u0'', cr_status = ''sent'',
         cr_unique_token = ''ABC12345''\<rparr>]"
  by code_simp

text \<open>The status of that answer, read off the theorem.\<close>

theorem missing_token_after_database_writes_witness:
  "status (fst (edge_handler (example_edge_env\<lparr>SMSAPI_TOKEN := None\<rparr>)
                  (POST edge_campaign_request) edge_world0)) = 500
   \<and> length (users (e_db (snd (edge_handler (example_edge_env\<lparr>SMSAPI_TOKEN := None\<rparr>)
                                   (POST edge_campaign_request) edge_world0)))) = 1"
  using missing_token_after_database_writes by (simp add: error_response_def)


section \<open>The edge function: what a missing token and the test flag prevent\<close>

lemma edge_frame_refl: "edge_frame w w"
  by (simp add: edge_frame_def)

lemma edge_frame_trans: "edge_frame a b \<Longrightarrow> edge_frame b c \<Longrightarrow> edge_frame a c"
  by (simp add: edge_frame_def)

lemma edge_select_campaign_frame: "edge_frame w (snd (edge_select_campaign ee cid w))"
  by (simp add: edge_select_campaign_def edge_db_request_def edge_frame_def
           split: option.splits list.splits)

lemma select_users_in_frame: "edge_frame w (snd (select_users_in ee phones w))"
  by (simp add: select_users_in_def edge_db_request_def edge_frame_def split: option.splits)

lemma insert_users_frame: "edge_frame w (snd (insert_users ee newUsers w))"
  by (simp add: insert_users_def edge_db_request_def edge_frame_def Let_def split: option.splits)

lemma select_recipients_in_frame: "edge_frame w (snd (select_recipients_in ee cid ids w))"
  by (simp add: select_recipients_in_def edge_db_request_def edge_frame_def split: option.splits)

lemma insert_recipients_frame: "edge_frame w (snd (insert_recipients ee rows w))"
  by (simp add: insert_recipients_def edge_db_request_def edge_frame_def split: option.splits)

lemma update_recipients_in_frame: "edge_frame w (update_recipients_in ee cid ids w)"
  by (simp add: update_recipients_in_def edge_db_request_def edge_frame_def split: option.splits)

lemma assign_tokens_frame:
  "edge_frame w (snd (snd (assign_tokens ee cid um em phones (tm, rows, w))))"
proof (induction phones arbitrary: tm rows w)
  case Nil
  then show ?case by (simp add: edge_frame_refl)
next
  case (Cons phone phones)
  show ?case
  proof (cases "um phone")
    case None
    with Cons show ?thesis by simp
  next
    case (Some userId)
    show ?thesis
    proof (cases "truthy (em userId)")
      case True
      with Some Cons show ?thesis by simp
    next
      case False
      have "edge_frame w (w\<lparr>e_random_draws := Suc (e_random_draws w)\<rparr>)"
        by (simp add: edge_frame_def)
      with False Some Cons show ?thesis
        by (auto simp: edge_random_token_def intro: edge_frame_trans)
    qed
  qed
qed

lemma users_step_frame: "edge_frame w (snd (users_step ee recips w))"
proof -
  obtain r w1 where s: "select_users_in ee recips w = (r, w1)" by force
  have a: "edge_frame w w1" using select_users_in_frame[of w ee recips] s by simp
  show ?thesis
  proof (cases r)
    case (Inl err)
    with s a show ?thesis by (simp add: users_step_def)
  next
    case (Inr existingUsers)
    have b: "insert_users ee nu w1 = (x, w2) \<Longrightarrow> edge_frame w w2" for nu x w2
      using insert_users_frame[of w1 ee nu] a by (auto intro: edge_frame_trans)
    from s a Inr show ?thesis
      by (auto simp: users_step_def Let_def split: prod.splits sum.splits if_splits dest: b)
  qed
qed

lemma recipients_step_frame: "edge_frame w (snd (recipients_step ee campaign recips um w))"
proof (cases campaign)
  case None
  then show ?thesis by (simp add: recipients_step_def edge_frame_refl)
next
  case (Some cid)
  let ?ids = "concat (map (\<lambda>phone. case um phone of None \<Rightarrow> [] | Some i \<Rightarrow> [i]) recips)"
  obtain r w1 where s: "select_recipients_in ee cid ?ids w = (r, w1)" by force
  have a: "edge_frame w w1" using select_recipients_in_frame[of w ee cid ?ids] s by simp
  show ?thesis
  proof (cases r)
    case (Inl err)
    with s a Some show ?thesis by (simp add: recipients_step_def)
  next
    case (Inr existingRecipients)
    let ?pairs = "map (\<lambda>r. (cr_user_id r, cr_unique_token r)) existingRecipients"
    obtain tm rows w2 where t: "assign_tokens ee cid um (Map_get ?pairs) recips ([], [], w1)
        = (tm, rows, w2)" by (metis prod_cases3)
    have b: "edge_frame w w2"
      using assign_tokens_frame[of w1 ee cid um "Map_get ?pairs" recips "[]" "[]"] t a
      by (auto intro: edge_frame_trans)
    obtain ir w3 where i: "(if rows \<noteq> [] then insert_recipients ee rows w2 else (None, w2))
        = (ir, w3)" by force
    have c: "edge_frame w w3"
      using insert_recipients_frame[of w2 ee rows] i b
      by (auto split: if_splits intro: edge_frame_trans)
    have d: "edge_frame w (update_recipients_in ee cid ids w3)" for ids
      using c update_recipients_in_frame by (rule edge_frame_trans)
    from Some s Inr t i c d show ?thesis
      by (cases ir) (simp_all add: recipients_step_def Let_def)
  qed
qed

lemma send_step_no_token:
  "\<not> truthy (SMSAPI_TOKEN ee)
   \<Longrightarrow> send_step ee recips msg sndr tst campaign fm p1 um w
        = (error_response 500 ''SMSAPI token not configured'', w)"
  by (simp add: send_step_def)

lemma send_step_test_no_log:
  "bulk_messages (e_db (snd (send_step ee recips msg sndr True campaign fm p1 um w)))
     = bulk_messages (e_db w)"
proof -
  have u: "bulk_messages (e_db (update_recipients_in ee c ids w0)) = bulk_messages (e_db w0)"
    for c ids w0
    using update_recipients_in_frame[of w0 ee c ids] by (simp add: edge_frame_def)
  show ?thesis
    by (simp add: send_step_def Let_def u split: provider_reply.splits option.splits)
qed

text \<open>
  The database steps of the handler (campaign, users, campaign recipients) send nothing to
  the provider and write no row to \<open>bulk_messages\<close>; what follows them is \<open>send_step\<close>.
\<close>

lemma edge_handler_cases:
  "(\<exists>response w1. edge_handler ee request w = (response, w1) \<and> edge_frame w w1) \<or>
   (\<exists>recips msg sndr tst campaign fm p1 um w1 body.
      request = POST body \<and> tst = (er_test body = Some True) \<and> edge_frame w w1 \<and>
      edge_handler ee request w = send_step ee recips msg sndr tst campaign fm p1 um w1)"
proof (cases request)
  case OPTIONS
  then show ?thesis by (simp add: edge_handler_def edge_frame_refl)
next
  case (POST_unreadable err)
  then show ?thesis by (simp add: edge_handler_def edge_frame_refl)
next
  case (POST body)
  let ?campaign = "if truthy (er_campaignId body) then er_campaignId body else None"
  let ?msg = "str_or (er_message body) []"
  let ?hasLink = "str_includes ?msg ''{{ link }}''"
  show ?thesis
  proof (cases "er_recipients body")
    case None
    with POST show ?thesis by (simp add: edge_handler_def edge_frame_refl)
  next
    case (Some recips)
    show ?thesis
    proof (cases "recips = [] \<or> (\<not> truthy (er_message body) \<or> trim ?msg = []) \<or>
                  (\<not> truthy (SUPABASE_URL ee) \<or> \<not> truthy (SUPABASE_SERVICE_ROLE_KEY ee))")
      case True
      with POST Some show ?thesis by (auto simp: edge_handler_def edge_frame_refl)
    next
      case False
      obtain cr w1 where c: "(if ?campaign \<noteq> None \<and> ?hasLink
                           then (case edge_select_campaign ee (str_or ?campaign []) w of
                                   (Inl campaignError, w1) \<Rightarrow>
                                     (Inl (error_response 400 ''Campaign not found or invalid campaign ID''), w1)
                                 | (Inr short_id, w1) \<Rightarrow> (Inr (Some short_id), w1))
                           else (Inr None, w)) = (cr, w1)" by force
      have f1: "edge_frame w w1"
        using c edge_select_campaign_frame[of w ee "str_or ?campaign []"]
        by (auto simp: edge_frame_refl split: if_splits prod.splits sum.splits)
      obtain ur w2 where u: "users_step ee recips w1 = (ur, w2)" by force
      have f2: "edge_frame w w2"
        using f1 users_step_frame[of w1 ee recips] u by (auto intro: edge_frame_trans)
      show ?thesis
      proof (cases cr)
        case (Inl response)
        with POST Some False c f1 have "edge_handler ee request w = (response, w1)"
          by (simp add: edge_handler_def Let_def)
        with f1 show ?thesis by blast
      next
        case cr: (Inr campaignShortId)
        show ?thesis
        proof (cases ur)
          case (Inl response)
          with POST Some False c cr u have "edge_handler ee request w = (response, w2)"
            by (simp add: edge_handler_def Let_def)
          with f2 show ?thesis by blast
        next
          case ur: (Inr userIdMap)
          obtain rr w3 where r: "recipients_step ee ?campaign recips userIdMap w2 = (rr, w3)"
            by force
          have f3: "edge_frame w w3"
            using f2 recipients_step_frame[of w2 ee ?campaign recips userIdMap] r
            by (auto intro: edge_frame_trans)
          show ?thesis
          proof (cases rr)
            case (Inl response)
            with POST Some False c cr u ur r have "edge_handler ee request w = (response, w3)"
              by (simp add: edge_handler_def Let_def)
            with f3 show ?thesis by blast
          next
            case (Inr campaignRecipientMap)
            let ?links = "if ?hasLink
                          then map (personalized_link
                                      (str_or (PUBLIC_BASE_URL ee) ''https://your-domain.com'')
                                      ?campaign campaignShortId campaignRecipientMap) recips
                          else []"
            let ?personalize = "?hasLink \<and> ?links \<noteq> []"
            from Inr POST Some False c cr u ur r
            have "edge_handler ee request w =
                    send_step ee recips ?msg
                      (case er_sender body of None \<Rightarrow> ''BulkComm'' | Some x \<Rightarrow> x)
                      (er_test body = Some True) ?campaign
                      (if ?personalize then replace_link (trim ?msg) else trim ?msg)
                      (if ?personalize then Some (str_join ''|'' ?links) else None)
                      userIdMap w3"
              by (simp add: edge_handler_def Let_def)
            with POST f3 show ?thesis by blast
          qed
        qed
      qed
    qed
  qed
qed

text \<open>Without the provider's token no request goes to the provider.\<close>

lemma edge_no_token_no_fetch:
  assumes "\<not> truthy (SMSAPI_TOKEN ee)"
  shows "e_fetches (snd (edge_handler ee request w)) = e_fetches w"
  using edge_handler_cases[of ee request w] send_step_no_token[OF assms]
  by (auto simp: edge_frame_def)

text \<open>In test mode the edge function writes no row to \<open>bulk_messages\<close>.\<close>

lemma edge_test_no_log:
  assumes "er_test body = Some True"
  shows "bulk_messages (e_db (snd (edge_handler ee (POST body) w))) = bulk_messages (e_db w)"
  using edge_handler_cases[of ee "POST body" w] assms send_step_test_no_log
  by (auto simp: edge_frame_def)


section \<open>The log of a personalized send, and plain sends\<close>

text \<open>
  The log of a personalized send, whatever the test flag: at most one row for the whole
  invocation; none when nothing was sent; one, with the counts of the invocation, when
  something was sent and the database answers.
\<close>

lemma personalized_send_log:
  assumes "personalized_send e req valid w = (res, w')"
  shows "r_sentCount res \<le> 0 \<longrightarrow> bulk_messages (db w') = bulk_messages (db w)"
    and "0 < r_sentCount res \<longrightarrow> (\<forall>n. db_fault e n = None) \<longrightarrow>
           bulk_messages (db w') = bulk_messages (db w) @
             [\<lparr>bm_type = ''sms'', bm_content = message req, bm_recipient_count = length valid,
               bm_sent_count = r_sentCount res, bm_status = ''completed'',
               bm_completed_at = now_iso e, bm_campaign_id = campaign_of req\<rparr>]"
    and "length (bulk_messages (db w')) \<le> Suc (length (bulk_messages (db w)))"
proof -
  let ?batches = "make_batches 0 valid"
  obtain res0 w1 where
    f: "fold (send_batch e req (hasLinkPlaceholder req) ?batches) [0..<length ?batches]
          (initial_results (length valid), w) = (res0, w1)" by force
  define w2 where "w2 = setProgress 100 w1"
  from assms f have res: "res = determine_success res0"
    by (simp add: personalized_send_def Let_def)
  from assms f have "w' = (if r_success (determine_success res0) \<and> r_sentCount (determine_success res0) > 0
                   then logSMSCampaign e ''sms'' (message req) (length valid)
                          (r_sentCount (determine_success res0)) ''completed'' (campaignId req) w2
                   else w2)"
    by (auto simp: personalized_send_def Let_def w2_def)
  then have w': "w' = (if r_success res \<and> r_sentCount res > 0
                   then logSMSCampaign e ''sms'' (message req) (length valid)
                          (r_sentCount res) ''completed'' (campaignId req) w2
                   else w2)"
    unfolding res .
  from fold_send_batch[OF f] have b: "bulk_messages (db w2) = bulk_messages (db w)"
    by (simp add: w2_def setProgress_facts)
  have s: "r_success res = (r_sentCount res \<noteq> 0)"
    by (rule personalized_send_facts(5)[OF assms])
  show "r_sentCount res \<le> 0 \<longrightarrow> bulk_messages (db w') = bulk_messages (db w)"
    using b by (simp add: w')
  show "0 < r_sentCount res \<longrightarrow> (\<forall>n. db_fault e n = None) \<longrightarrow>
           bulk_messages (db w') = bulk_messages (db w) @
             [\<lparr>bm_type = ''sms'', bm_content = message req, bm_recipient_count = length valid,
               bm_sent_count = r_sentCount res, bm_status = ''completed'',
               bm_completed_at = now_iso e, bm_campaign_id = campaign_of req\<rparr>]"
    using b s
    by (auto simp: w' logSMSCampaign_def insert_bulk_message_def db_request_def campaign_of_def
             split: option.splits)
  show "length (bulk_messages (db w')) \<le> Suc (length (bulk_messages (db w)))"
    using b
    by (auto simp: w' logSMSCampaign_def insert_bulk_message_def db_request_def
             split: option.splits)
qed

text \<open>
  A plain send (no campaign, no placeholder \<open>{{ link }}\<close>): one invocation, with all valid
  recipients as they are and the trimmed message; the database is not touched.
\<close>

lemma plain_send_one_call:
  assumes "validRecipients req \<noteq> []" and "campaign_of req = None" and "\<not> hasLinkPlaceholder req"
  shows "invocations (snd (sendSMS e req w)) = invocations w @ [plain_body req]"
    and "db (snd (sendSMS e req w)) = db w"
proof -
  let ?w0 = "setProgress 0 (setSending True w)"
  from assms validRecipients_nonempty[OF assms(1)]
  have t: "sendSMS_try e req ?w0
           = sendBulkSMS e (validRecipients req) (message req) (sender req) (test req) None ?w0"
    by (simp add: sendSMS_try_def)
  show "invocations (snd (sendSMS e req w)) = invocations w @ [plain_body req]"
    unfolding sendSMS_def t sendBulkSMS_plain
    by (simp add: setSending_facts setProgress_facts split: invoke_result.splits)
  show "db (snd (sendSMS e req w)) = db w"
    unfolding sendSMS_def t sendBulkSMS_plain
    by (simp add: setSending_facts setProgress_facts split: invoke_result.splits)
qed

end
